theory Spec2Isabelle
  imports Complex_Main "HOL-Library.Word"
begin

unbundle bit_operations_syntax

section \<open>Platform values: bytes, numbers and failures\<close>

text \<open>
  The program is a single TypeScript module, \<^verbatim>\<open>src/index.tsx\<close>. Its audio core consists of
  \<^verbatim>\<open>decode\<close>, \<^verbatim>\<open>pcmToWavBlob\<close> and the playback handlers of the \<^verbatim>\<open>App\<close> component.

  A JavaScript \<^verbatim>\<open>number\<close> that holds an integer is modelled as \<^typ>\<open>int\<close>; this is exact for
  all integral values whose arithmetic stays below \<open>2 ^ 53\<close> in magnitude. Fractional values,
  \<^verbatim>\<open>NaN\<close> and the infinities are outside the model. An \<^verbatim>\<open>ArrayBuffer\<close> seen through a
  \<^verbatim>\<open>DataView\<close> or a \<^verbatim>\<open>Uint8Array\<close> is a list of bytes; an \<^verbatim>\<open>Int16Array\<close> is a list of
  16-bit words, read as signed by \<^const>\<open>sint\<close>. Memory is unbounded: an allocation never
  fails.
\<close>

type_synonym byte = "8 word"
type_synonym int16 = "16 word"

text \<open>
  The failures the modelled code can raise. \<open>RangeError\<close> is what the platform throws for an
  out-of-bounds \<^verbatim>\<open>DataView\<close> access and for an \<^verbatim>\<open>Int16Array\<close> over a buffer of odd byte
  length; \<open>InvalidStateError\<close> is thrown by an audio source node that is started twice or
  stopped before it was started; \<open>InvalidCharacterError\<close> is thrown by \<^verbatim>\<open>atob\<close>;
  \<open>NoAudioData\<close> is the \<^verbatim>\<open>Error("No audio data received from the API.")\<close> and
  \<open>NoAudioContext\<close> the \<^verbatim>\<open>Error("AudioContext not available.")\<close> of
  \<^verbatim>\<open>handleGenerateSpeech\<close>; \<open>EncodingError\<close> is a rejection of \<^verbatim>\<open>decodeAudioData\<close>
  and \<open>ApiError\<close> a failed request to the synthesis service.
\<close>

datatype error =
    RangeError
  | InvalidStateError
  | InvalidCharacterError
  | NoAudioData
  | NoAudioContext
  | EncodingError
  | ApiError

text \<open>Sequencing of statements that may throw: the first failure is the result.\<close>

definition and_then :: "error + 'a \<Rightarrow> ('a \<Rightarrow> error + 'b) \<Rightarrow> error + 'b" where
  "and_then m f = (case m of Inl e \<Rightarrow> Inl e | Inr x \<Rightarrow> f x)"

section \<open>The DataView operations used by the encoder\<close>

text \<open>
  \<open>uint_bytes n v\<close> is the conversion of the number \<open>v\<close> to an unsigned integer of \<open>n\<close> bytes
  (reduction modulo \<open>2 ^ (8 * n)\<close>, the platform's \<^verbatim>\<open>ToUint8\<close>, \<^verbatim>\<open>ToUint16\<close>, \<^verbatim>\<open>ToUint32\<close>)
  followed by its bytes, least significant first. \<^verbatim>\<open>ToInt16\<close> produces the same bit pattern
  as \<^verbatim>\<open>ToUint16\<close>, so \<^verbatim>\<open>setInt16\<close> stores the same bytes as \<^verbatim>\<open>setUint16\<close>.
\<close>

definition uint_bytes :: "nat \<Rightarrow> int \<Rightarrow> byte list" where
  "uint_bytes n v = map (\<lambda>k. word_of_int ((v mod 2 ^ (8 * n)) div 2 ^ (8 * k))) [0..<n]"

fun store_bytes :: "byte list \<Rightarrow> nat \<Rightarrow> byte list \<Rightarrow> byte list" where
  "store_bytes view byteOffset [] = view"
| "store_bytes view byteOffset (b # bs) = store_bytes (view[byteOffset := b]) (Suc byteOffset) bs"

definition set_uint :: "nat \<Rightarrow> byte list \<Rightarrow> nat \<Rightarrow> int \<Rightarrow> bool \<Rightarrow> error + byte list" where
  "set_uint n view byteOffset v littleEndian =
     (if byteOffset + n \<le> length view
      then Inr (store_bytes view byteOffset
                  (if littleEndian then uint_bytes n v else rev (uint_bytes n v)))
      else Inl RangeError)"

definition setUint8 :: "byte list \<Rightarrow> nat \<Rightarrow> int \<Rightarrow> error + byte list" where
  "setUint8 view byteOffset v = set_uint 1 view byteOffset v True"

definition setUint16 :: "byte list \<Rightarrow> nat \<Rightarrow> int \<Rightarrow> bool \<Rightarrow> error + byte list" where
  "setUint16 view byteOffset v littleEndian = set_uint 2 view byteOffset v littleEndian"

definition setInt16 :: "byte list \<Rightarrow> nat \<Rightarrow> int \<Rightarrow> bool \<Rightarrow> error + byte list" where
  "setInt16 view byteOffset v littleEndian = set_uint 2 view byteOffset v littleEndian"

definition setUint32 :: "byte list \<Rightarrow> nat \<Rightarrow> int \<Rightarrow> bool \<Rightarrow> error + byte list" where
  "setUint32 view byteOffset v littleEndian = set_uint 4 view byteOffset v littleEndian"

text \<open>
  Reading a header field back, as \<^verbatim>\<open>DataView.getUint16\<close> and \<^verbatim>\<open>DataView.getUint32\<close> do. The
  program itself never reads the header; these two are the observations through which the
  header fields of an encoded file are stated.
\<close>

fun le_value :: "byte list \<Rightarrow> int" where
  "le_value [] = 0"
| "le_value (b # bs) = uint b + 256 * le_value bs"

definition get_uint :: "nat \<Rightarrow> byte list \<Rightarrow> nat \<Rightarrow> bool \<Rightarrow> error + int" where
  "get_uint n view byteOffset littleEndian =
     (if byteOffset + n \<le> length view
      then Inr (le_value ((if littleEndian then id else rev) (take n (drop byteOffset view))))
      else Inl RangeError)"

definition getUint16 :: "byte list \<Rightarrow> nat \<Rightarrow> bool \<Rightarrow> error + int" where
  "getUint16 view byteOffset littleEndian = get_uint 2 view byteOffset littleEndian"

definition getUint32 :: "byte list \<Rightarrow> nat \<Rightarrow> bool \<Rightarrow> error + int" where
  "getUint32 view byteOffset littleEndian = get_uint 4 view byteOffset littleEndian"

section \<open>The container encoder\<close>

text \<open>
  \<^verbatim>\<open>writeString\<close> is the closure inside \<^verbatim>\<open>pcmToWavBlob\<close>; the view it captures is passed
  explicitly and returned updated. The loop counter \<open>i\<close> is the last argument.
\<close>

function writeString :: "byte list \<Rightarrow> nat \<Rightarrow> string \<Rightarrow> nat \<Rightarrow> error + byte list" where
  "writeString view offset str i =
     (if i < length str
      then (case setUint8 view (offset + i) (int (of_char (str ! i))) of
              Inl e \<Rightarrow> Inl e
            | Inr view' \<Rightarrow> writeString view' offset str (Suc i))
      else Inr view)"
  by pat_completeness auto
termination
  by (relation "measure (\<lambda>(view, offset, str, i). length str - i)") auto

text \<open>The final loop of \<^verbatim>\<open>pcmToWavBlob\<close>, which copies the samples.\<close>

function writePcm :: "byte list \<Rightarrow> int16 list \<Rightarrow> nat \<Rightarrow> nat \<Rightarrow> error + byte list" where
  "writePcm view pcmData headerSize i =
     (if i < length pcmData
      then (case setInt16 view (headerSize + i * 2) (sint (pcmData ! i)) True of
              Inl e \<Rightarrow> Inl e
            | Inr view' \<Rightarrow> writePcm view' pcmData headerSize (Suc i))
      else Inr view)"
  by pat_completeness auto
termination
  by (relation "measure (\<lambda>(view, pcmData, headerSize, i). length pcmData - i)") auto

definition pcmToWavBlob :: "int16 list \<Rightarrow> int \<Rightarrow> int \<Rightarrow> error + byte list" where
  "pcmToWavBlob pcmData sampleRate numChannels =
     (let headerSize = 44;
          bitsPerSample = 16;
          bytesPerSample = bitsPerSample div 8;
          dataSize = int (length pcmData) * bytesPerSample;
          fileSize = int headerSize + dataSize;
          buffer = replicate (nat fileSize) (0 :: byte)
      in
      and_then (writeString buffer 0 ''RIFF'' 0) (\<lambda>view.
      and_then (setUint32 view 4 (fileSize - 8) True) (\<lambda>view.
      and_then (writeString view 8 ''WAVE'' 0) (\<lambda>view.
      and_then (writeString view 12 ''fmt '' 0) (\<lambda>view.
      and_then (setUint32 view 16 16 True) (\<lambda>view.
      and_then (setUint16 view 20 1 True) (\<lambda>view.
      and_then (setUint16 view 22 numChannels True) (\<lambda>view.
      and_then (setUint32 view 24 sampleRate True) (\<lambda>view.
      and_then (setUint32 view 28 (sampleRate * numChannels * bytesPerSample) True) (\<lambda>view.
      and_then (setUint16 view 32 (numChannels * bytesPerSample) True) (\<lambda>view.
      and_then (setUint16 view 34 bitsPerSample True) (\<lambda>view.
      and_then (writeString view 36 ''data'' 0) (\<lambda>view.
      and_then (setUint32 view 40 dataSize True) (\<lambda>view.
      writePcm view pcmData headerSize 0))))))))))))))"


section \<open>Decoding the synthesis response\<close>

text \<open>
  \<^verbatim>\<open>decode\<close> turns the base64 text into bytes. The platform's \<^verbatim>\<open>atob\<close> is a parameter: it
  returns the binary string (one character per byte) or throws. The loop stores the
  character codes into a fresh \<^verbatim>\<open>Uint8Array\<close> of the same length.
\<close>

function decode_loop :: "string \<Rightarrow> byte list \<Rightarrow> nat \<Rightarrow> nat \<Rightarrow> byte list" where
  "decode_loop binaryString bytes len i =
     (if i < len
      then decode_loop binaryString
             (bytes[i := word_of_int (int (of_char (binaryString ! i)))]) len (Suc i)
      else bytes)"
  by pat_completeness auto
termination
  by (relation "measure (\<lambda>(binaryString, bytes, len, i). len - i)") auto

definition decode :: "(string \<Rightarrow> error + string) \<Rightarrow> string \<Rightarrow> error + byte list" where
  "decode atob base64 =
     and_then (atob base64) (\<lambda>binaryString.
       let len = length binaryString;
           bytes = replicate len (0 :: byte)
       in Inr (decode_loop binaryString bytes len 0))"

text \<open>
  \<^verbatim>\<open>new Int16Array(buffer)\<close>: the platform throws a \<open>RangeError\<close> when the byte length of
  the buffer is not a multiple of 2; otherwise the array has half as many elements as the
  buffer has bytes, each read in the byte order of the platform, taken to be little-endian.
\<close>

definition new_Int16Array :: "byte list \<Rightarrow> error + int16 list" where
  "new_Int16Array buffer =
     (if length buffer mod 2 \<noteq> 0 then Inl RangeError
      else Inr (map (\<lambda>i. ucast (buffer ! (2 * i)) OR push_bit 8 (ucast (buffer ! (2 * i + 1))))
                  [0..<length buffer div 2]))"

text \<open>
  The part of \<^verbatim>\<open>handleGenerateSpeech\<close> between the response of the synthesis service and
  the platform's audio decoder: \<open>base64Audio\<close> is the payload found in the response
  (\<open>None\<close> when the optional chain yields \<^verbatim>\<open>undefined\<close>); a missing or empty payload is
  falsy and raises the "No audio data" error. The format passed to the encoder is fixed:
  24000 Hz, one channel.
\<close>

definition handleGenerateSpeech_wav ::
    "(string \<Rightarrow> error + string) \<Rightarrow> string option \<Rightarrow> error + byte list" where
  "handleGenerateSpeech_wav atob base64Audio =
     (case base64Audio of
        None \<Rightarrow> Inl NoAudioData
      | Some base64 \<Rightarrow>
          if base64 = [] then Inl NoAudioData
          else and_then (decode atob base64) (\<lambda>decodedBytes.
               and_then (new_Int16Array decodedBytes) (\<lambda>pcmData.
               pcmToWavBlob pcmData 24000 1)))"

section \<open>Playback\<close>

text \<open>
  The audio source nodes are platform objects. A node is created unscheduled; \<^verbatim>\<open>start\<close>
  makes it render (\<open>Playing\<close>); when the buffer is exhausted or \<^verbatim>\<open>stop\<close> is called it
  ceases to render and the platform queues its \<^verbatim>\<open>ended\<close> event (\<open>Finishing\<close>); the event is
  dispatched once, to the handler stored in \<^verbatim>\<open>onended\<close> at that moment, if any (\<open>Done\<close>).
  \<^verbatim>\<open>start\<close> on a node already started and \<^verbatim>\<open>stop\<close> on a node never started throw.
  \<open>stopRequested\<close> records that \<^verbatim>\<open>stop\<close> was called on the node. The only handler the
  program ever installs is the closure of \<^verbatim>\<open>handlePlayStop\<close>, \<open>SessionEnded\<close>.
\<close>

datatype context_state = Suspended | Running

datatype node_phase = Unscheduled | Playing | Finishing | Done

datatype handler = SessionEnded

record 'b source_node =
  buffer :: "'b option"
  playbackRate :: real
  detune :: int
  connected :: bool
  onended :: "handler option"
  phase :: node_phase
  stopRequested :: bool

definition createBufferSource :: "'b source_node" where
  "createBufferSource =
     \<lparr>buffer = None, playbackRate = 1, detune = 0, connected = False, onended = None,
      phase = Unscheduled, stopRequested = False\<rparr>"

definition node_start :: "'b source_node \<Rightarrow> error + 'b source_node" where
  "node_start source =
     (if phase source = Unscheduled then Inr (source\<lparr>phase := Playing\<rparr>)
      else Inl InvalidStateError)"

definition node_stop :: "'b source_node \<Rightarrow> error + 'b source_node" where
  "node_stop source =
     (if phase source = Unscheduled then Inl InvalidStateError
      else Inr (source\<lparr>phase := (if phase source = Playing then Finishing else phase source),
                       stopRequested := True\<rparr>))"

text \<open>
  The state of the \<^verbatim>\<open>App\<close> component that the audio core uses: the React state variables
  \<open>rate\<close>, \<open>pitch\<close>, \<open>audioBuffer\<close>, \<open>isPlaying\<close>, \<open>loading\<close> and \<open>error\<close>, and the two refs.
  \<open>sourceNodeRef\<close> holds the address of a node in the store \<open>nodes\<close> of all nodes created so
  far. \<open>finished\<close> is the log of "finished" notifications: the address of a node is appended
  each time the \<^verbatim>\<open>onended\<close> closure runs for it. The decoded \<^verbatim>\<open>AudioBuffer\<close> is an opaque
  value of type \<open>'b\<close>. State updates take effect when the handler returns.
\<close>

record 'b app =
  rate :: real
  pitch :: int
  audioBuffer :: "'b option"
  isPlaying :: bool
  loading :: bool
  error :: string
  audioContextRef :: "context_state option"
  sourceNodeRef :: "nat option"
  nodes :: "'b source_node list"
  finished :: "nat list"

definition initial :: "context_state option \<Rightarrow> 'b app" where
  "initial ctx =
     \<lparr>rate = 1, pitch = 0, audioBuffer = None, isPlaying = False, loading = False,
      error = [], audioContextRef = ctx, sourceNodeRef = None, nodes = [], finished = []\<rparr>"

definition stopPlayback :: "'b app \<Rightarrow> error + 'b app" where
  "stopPlayback s =
     (case sourceNodeRef s of
        None \<Rightarrow> Inr s
      | Some n \<Rightarrow>
          (let source = (nodes s ! n)\<lparr>onended := None\<rparr>
           in and_then (node_stop source) (\<lambda>source.
                Inr (s\<lparr>nodes := (nodes s)[n := source], sourceNodeRef := None,
                       isPlaying := False\<rparr>))))"

text \<open>The closure assigned to \<^verbatim>\<open>source.onended\<close> in \<^verbatim>\<open>handlePlayStop\<close>.\<close>

definition onended_closure :: "'b app \<Rightarrow> 'b app" where
  "onended_closure s = s\<lparr>isPlaying := False, sourceNodeRef := None\<rparr>"

definition handlePlayStop :: "'b app \<Rightarrow> error + 'b app" where
  "handlePlayStop s =
     (case audioContextRef s of
        None \<Rightarrow> Inr s
      | Some audioContext \<Rightarrow>
          (let s = (if audioContext = Suspended then s\<lparr>audioContextRef := Some Running\<rparr> else s)
           in if isPlaying s then stopPlayback s
              else (case audioBuffer s of
                      None \<Rightarrow> Inr s
                    | Some b \<Rightarrow>
                        (let source = createBufferSource;
                             source = source\<lparr>buffer := Some b\<rparr>;
                             source = source\<lparr>playbackRate := rate s\<rparr>;
                             source = source\<lparr>detune := pitch s * 100\<rparr>;
                             source = source\<lparr>connected := True\<rparr>
                         in and_then (node_start source) (\<lambda>source.
                              let source = source\<lparr>onended := Some SessionEnded\<rparr>
                              in Inr (s\<lparr>nodes := nodes s @ [source],
                                        sourceNodeRef := Some (length (nodes s)),
                                        isPlaying := True\<rparr>))))))"

definition handleRateChange :: "real \<Rightarrow> 'b app \<Rightarrow> error + 'b app" where
  "handleRateChange v s = and_then (stopPlayback s) (\<lambda>s. Inr (s\<lparr>rate := v\<rparr>))"

definition handlePitchChange :: "int \<Rightarrow> 'b app \<Rightarrow> error + 'b app" where
  "handlePitchChange v s = and_then (stopPlayback s) (\<lambda>s. Inr (s\<lparr>pitch := v\<rparr>))"

text \<open>
  \<^verbatim>\<open>handleGenerateSpeech\<close> is asynchronous. Its first part runs up to the request to the
  synthesis service; \<open>trim\<close> removes ASCII white space at both ends. Its last part runs when
  the \<^verbatim>\<open>try\<close> block has settled, with the decoded buffer or with the failure caught;
  \<open>message\<close> gives the message text of a failure.
\<close>

definition is_space :: "char \<Rightarrow> bool" where
  "is_space c \<longleftrightarrow> c \<in> set [CHR '' '', CHR 0x09, CHR 0x0A, CHR 0x0B, CHR 0x0C, CHR 0x0D]"

definition trim :: "string \<Rightarrow> string" where
  "trim str = rev (dropWhile is_space (rev (dropWhile is_space str)))"

definition handleGenerateSpeech_begin :: "string \<Rightarrow> 'b app \<Rightarrow> error + 'b app" where
  "handleGenerateSpeech_begin txt s =
     (if trim txt = [] then Inr (s\<lparr>error := ''Please enter some text to generate speech.''\<rparr>)
      else and_then (stopPlayback (s\<lparr>loading := True, error := []\<rparr>)) (\<lambda>s.
             Inr (s\<lparr>audioBuffer := None\<rparr>)))"


definition handleGenerateSpeech_settle ::
    "(error \<Rightarrow> string) \<Rightarrow> error + 'b \<Rightarrow> 'b app \<Rightarrow> 'b app" where
  "handleGenerateSpeech_settle message outcome s =
     (case outcome of
        Inr decodedAudioBuffer \<Rightarrow> s\<lparr>audioBuffer := Some decodedAudioBuffer, loading := False\<rparr>
      | Inl e \<Rightarrow> s\<lparr>error := ''Failed to generate speech. '' @ message e, loading := False\<rparr>)"

text \<open>
  The two platform events on a node: the end of its buffer is reached while it renders, and
  its queued \<^verbatim>\<open>ended\<close> event is dispatched. An event that is not enabled changes nothing.
\<close>

definition render_end :: "nat \<Rightarrow> 'b app \<Rightarrow> 'b app" where
  "render_end n s =
     (if n < length (nodes s) \<and> phase (nodes s ! n) = Playing
      then s\<lparr>nodes := (nodes s)[n := (nodes s ! n)\<lparr>phase := Finishing\<rparr>]\<rparr>
      else s)"

definition dispatch_ended :: "nat \<Rightarrow> 'b app \<Rightarrow> 'b app" where
  "dispatch_ended n s =
     (if n < length (nodes s) \<and> phase (nodes s ! n) = Finishing
      then (let s' = s\<lparr>nodes := (nodes s)[n := (nodes s ! n)\<lparr>phase := Done\<rparr>]\<rparr>
            in case onended (nodes s ! n) of
                 None \<Rightarrow> s'
               | Some SessionEnded \<Rightarrow> (onended_closure s')\<lparr>finished := finished s' @ [n]\<rparr>)
      else s)"

text \<open>
  Everything that can happen to the mounted component: the user's actions, the settling of
  a synthesis request, and the platform events. A run applies a list of events in turn and
  stops at the first handler that throws. Unmounting ends the component; its cleanup is not
  an event of a run, and so an audio context is never closed during one. \<^verbatim>\<open>resume\<close> is
  taken to put a suspended context into the running state at once.
\<close>

datatype 'b event =
    PlayStop
  | RateChange real
  | PitchChange int
  | GenerateSpeech string
  | SpeechSettled "error + 'b"
  | RenderEnd nat
  | EndedEvent nat

fun step :: "(error \<Rightarrow> string) \<Rightarrow> 'b event \<Rightarrow> 'b app \<Rightarrow> error + 'b app" where
  "step message PlayStop s = handlePlayStop s"
| "step message (RateChange v) s = handleRateChange v s"
| "step message (PitchChange v) s = handlePitchChange v s"
| "step message (GenerateSpeech txt) s = handleGenerateSpeech_begin txt s"
| "step message (SpeechSettled outcome) s = Inr (handleGenerateSpeech_settle message outcome s)"
| "step message (RenderEnd n) s = Inr (render_end n s)"
| "step message (EndedEvent n) s = Inr (dispatch_ended n s)"

fun run :: "(error \<Rightarrow> string) \<Rightarrow> 'b app \<Rightarrow> 'b event list \<Rightarrow> error + 'b app" where
  "run message s [] = Inr s"
| "run message s (ev # evs) = and_then (step message ev s) (\<lambda>s'. run message s' evs)"

text \<open>
  The invariant of the playback sessions. The node \<^verbatim>\<open>sourceNodeRef\<close> points to, if any, is
  the current session: it renders or awaits its \<^verbatim>\<open>ended\<close> event, still carries the
  closure and was never stopped. Every other node is retired: either it was notified
  (it is in the log, its event was dispatched, it was never stopped), or it was stopped
  (its closure is removed, and it is not in the log). \<open>isPlaying\<close> holds exactly when there is
  a current session, and the log names each node at most once.
\<close>

definition current_ok :: "'b source_node \<Rightarrow> bool" where
  "current_ok source \<longleftrightarrow>
     (phase source = Playing \<or> phase source = Finishing) \<and>
     onended source = Some SessionEnded \<and> \<not> stopRequested source"

definition retired_ok :: "bool \<Rightarrow> 'b source_node \<Rightarrow> bool" where
  "retired_ok notified source \<longleftrightarrow>
     (if notified then phase source = Done \<and> \<not> stopRequested source
      else (phase source = Finishing \<or> phase source = Done) \<and>
           onended source = None \<and> stopRequested source)"

definition sessions_ok :: "'b app \<Rightarrow> bool" where
  "sessions_ok s \<longleftrightarrow>
     (isPlaying s \<longleftrightarrow> sourceNodeRef s \<noteq> None) \<and>
     distinct (finished s) \<and>
     (\<forall>n \<in> set (finished s). n < length (nodes s)) \<and>
     (case sourceNodeRef s of
        None \<Rightarrow> True
      | Some n \<Rightarrow> n < length (nodes s) \<and> n \<notin> set (finished s)) \<and>
     (\<forall>n \<in> set [0..<length (nodes s)].
        if sourceNodeRef s = Some n then current_ok (nodes s ! n)
        else retired_ok (n \<in> set (finished s)) (nodes s ! n))"

text \<open>
  Observations on the encoder's result, used to state what an encoded file contains:
  its size, a range of its bytes (as \<^verbatim>\<open>Blob.slice(start, end)\<close> gives), and a header
  field read with \<^const>\<open>getUint16\<close> or \<^const>\<open>getUint32\<close>, little-endian.
\<close>

definition blob_size :: "error + byte list \<Rightarrow> error + nat" where
  "blob_size blob = and_then blob (\<lambda>view. Inr (length view))"

definition blob_slice :: "error + byte list \<Rightarrow> nat \<Rightarrow> nat \<Rightarrow> error + byte list" where
  "blob_slice blob start end = and_then blob (\<lambda>view. Inr (take (end - start) (drop start view)))"

definition header_uint16 :: "error + byte list \<Rightarrow> nat \<Rightarrow> error + int" where
  "header_uint16 blob byteOffset = and_then blob (\<lambda>view. getUint16 view byteOffset True)"

definition header_uint32 :: "error + byte list \<Rightarrow> nat \<Rightarrow> error + int" where
  "header_uint32 blob byteOffset = and_then blob (\<lambda>view. getUint32 view byteOffset True)"

text \<open>
  Decoding the header back: the sample rate, the channel count and the number of samples
  (the payload size divided by the two bytes of a sample), read from their fields.
\<close>

definition decode_header :: "byte list \<Rightarrow> error + int \<times> int \<times> int" where
  "decode_header view =
     and_then (getUint32 view 24 True) (\<lambda>sampleRate.
     and_then (getUint16 view 22 True) (\<lambda>numChannels.
     and_then (getUint32 view 40 True) (\<lambda>dataSize.
     Inr (sampleRate, numChannels, dataSize div 2))))"

text \<open>
  The bytes the encoder is shown to produce: the 44 header bytes for \<open>n\<close> samples, and the
  payload. \<open>zero_tail written k\<close> is a buffer whose first bytes have been written and whose
  last \<open>k\<close> bytes still hold the zeros of the fresh \<^verbatim>\<open>ArrayBuffer\<close>.
\<close>

definition sample_bytes :: "int16 list \<Rightarrow> byte list" where
  "sample_bytes pcmData = concat (map (\<lambda>s. uint_bytes 2 (sint s)) pcmData)"

definition wav_header :: "nat \<Rightarrow> int \<Rightarrow> int \<Rightarrow> byte list" where
  "wav_header n sampleRate numChannels =
     map of_char ''RIFF'' @ uint_bytes 4 (36 + 2 * int n) @ map of_char ''WAVE'' @
     map of_char ''fmt '' @ uint_bytes 4 16 @ uint_bytes 2 1 @ uint_bytes 2 numChannels @
     uint_bytes 4 sampleRate @ uint_bytes 4 (sampleRate * numChannels * 2) @
     uint_bytes 2 (numChannels * 2) @ uint_bytes 2 16 @ map of_char ''data'' @
     uint_bytes 4 (2 * int n)"

definition zero_tail :: "byte list \<Rightarrow> nat \<Rightarrow> byte list" where
  "zero_tail written k = written @ replicate k 0"

section \<open>The encoder writes the header and the payload without failing\<close>

lemma length_uint_bytes: "length (uint_bytes n v) = n"
  by (simp add: uint_bytes_def)

lemma store_bytes_frame:
  "length old = length new \<Longrightarrow>
   store_bytes (pre @ old @ post) (length pre) new = pre @ new @ post"
proof (induction new arbitrary: pre old)
  case Nil
  then show ?case by simp
next
  case (Cons b bs)
  then obtain a old' where old: "old = a # old'" "length old' = length bs"
    by (cases old) auto
  have "store_bytes ((pre @ [b]) @ old' @ post) (length (pre @ [b])) bs = (pre @ [b]) @ bs @ post"
    using Cons.IH [of old' "pre @ [b]"] old by simp
  then show ?case using old by simp
qed

lemma set_uint_fill:
  assumes "byteOffset = length written" and "n \<le> k"
  shows "set_uint n (zero_tail written k) byteOffset v True
           = Inr (zero_tail (written @ uint_bytes n v) (k - n))"
proof -
  have "replicate k (0::byte) = replicate n 0 @ replicate (k - n) 0"
    using assms by (simp add: replicate_add [symmetric])
  then show ?thesis
    using assms store_bytes_frame [of "replicate n 0" "uint_bytes n v" written "replicate (k - n) 0"]
    by (simp add: set_uint_def length_uint_bytes zero_tail_def)
qed

declare writeString.simps [simp del] writePcm.simps [simp del]

lemma char_byte: "uint_bytes (Suc 0) (int (of_char c)) = [of_char c]"
  by (simp add: uint_bytes_def of_int_of_char of_nat_of_char)

lemma writeString_fill:
  "offset + i = length written \<Longrightarrow> length str - i \<le> k \<Longrightarrow>
   writeString (zero_tail written k) offset str i
     = Inr (zero_tail (written @ map of_char (drop i str)) (k - (length str - i)))"
proof (induction "length str - i" arbitrary: i written k)
  case 0
  then show ?case
    by (subst writeString.simps) simp
next
  case (Suc m)
  then have lt: "i < length str" and le: "1 \<le> k" by auto
  let ?b = "uint_bytes 1 (int (of_char (str ! i)))"
  have step: "setUint8 (zero_tail written k) (offset + i) (int (of_char (str ! i)))
                = Inr (zero_tail (written @ ?b) (k - 1))"
    unfolding setUint8_def using Suc.prems(1) le by (rule set_uint_fill)
  have ih: "writeString (zero_tail (written @ ?b) (k - 1)) offset str (Suc i)
              = Inr (zero_tail ((written @ ?b) @ map of_char (drop (Suc i) str))
                       ((k - 1) - (length str - Suc i)))"
    using Suc.hyps(2) Suc.prems by (intro Suc.hyps(1)) (auto simp: length_uint_bytes)
  have dr: "map of_char (drop i str) = ?b @ map of_char (drop (Suc i) str)"
    using lt by (simp add: char_byte Cons_nth_drop_Suc [symmetric])
  have "writeString (zero_tail written k) offset str i
          = writeString (zero_tail (written @ ?b) (k - 1)) offset str (Suc i)"
    by (subst writeString.simps) (simp only: lt step if_True sum.case)
  also note ih
  finally show ?case
    using lt Suc.prems(2) by (simp add: dr)
qed

lemma length_sample_bytes: "length (sample_bytes pcmData) = 2 * length pcmData"
  by (induction pcmData) (simp_all add: sample_bytes_def length_uint_bytes)

lemma writePcm_fill:
  "headerSize + i * 2 = length written \<Longrightarrow> 2 * (length pcmData - i) \<le> k \<Longrightarrow>
   writePcm (zero_tail written k) pcmData headerSize i
     = Inr (zero_tail (written @ sample_bytes (drop i pcmData)) (k - 2 * (length pcmData - i)))"
proof (induction "length pcmData - i" arbitrary: i written k)
  case 0
  then show ?case
    by (subst writePcm.simps) (simp add: sample_bytes_def)
next
  case (Suc m)
  then have lt: "i < length pcmData" and le: "2 \<le> k" by auto
  let ?b = "uint_bytes 2 (sint (pcmData ! i))"
  have step: "setInt16 (zero_tail written k) (headerSize + i * 2) (sint (pcmData ! i)) True
                = Inr (zero_tail (written @ ?b) (k - 2))"
    unfolding setInt16_def using Suc.prems(1) le by (rule set_uint_fill)
  have ih: "writePcm (zero_tail (written @ ?b) (k - 2)) pcmData headerSize (Suc i)
              = Inr (zero_tail ((written @ ?b) @ sample_bytes (drop (Suc i) pcmData))
                       ((k - 2) - 2 * (length pcmData - Suc i)))"
    using Suc.hyps(2) Suc.prems by (intro Suc.hyps(1)) (auto simp: length_uint_bytes)
  have dr: "sample_bytes (drop i pcmData) = ?b @ sample_bytes (drop (Suc i) pcmData)"
    using lt by (simp add: sample_bytes_def Cons_nth_drop_Suc [symmetric])
  have "writePcm (zero_tail written k) pcmData headerSize i
          = writePcm (zero_tail (written @ ?b) (k - 2)) pcmData headerSize (Suc i)"
    by (subst writePcm.simps) (simp only: lt step if_True sum.case)
  also note ih
  finally have "writePcm (zero_tail written k) pcmData headerSize i
          = Inr (zero_tail ((written @ ?b) @ sample_bytes (drop (Suc i) pcmData))
                       ((k - 2) - 2 * (length pcmData - Suc i)))" .
  moreover have "k - 2 - 2 * (length pcmData - Suc i) = k - 2 * (length pcmData - i)"
    using lt by arith
  ultimately show ?case
    by (simp only: dr append_assoc)
qed

text \<open>
  The closed form of the encoder: every write lands inside the buffer, so no
  \<open>RangeError\<close> arises, and the result is the header followed by the payload.
\<close>

lemma pcmToWavBlob_bytes:
  "pcmToWavBlob pcmData sampleRate numChannels
     = Inr (wav_header (length pcmData) sampleRate numChannels @ sample_bytes pcmData)"
proof -
  have start: "\<And>k. replicate k (0::byte) = zero_tail [] k"
    by (simp add: zero_tail_def)
  have fin: "\<And>xs. zero_tail xs 0 = xs"
    by (simp add: zero_tail_def)
  have n: "nat (44 + int (length pcmData) * 2) = 44 + 2 * length pcmData"
    by simp
  have m: "int (length pcmData) * 2 = 2 * int (length pcmData)"
    by simp
  show ?thesis
    unfolding pcmToWavBlob_def Let_def
    by (simp add: n m start and_then_def setUint16_def setUint32_def
        writeString_fill set_uint_fill writePcm_fill
        length_uint_bytes length_sample_bytes fin wav_header_def)
qed

lemma length_wav_header: "length (wav_header n sampleRate numChannels) = 44"
  by (simp add: wav_header_def length_uint_bytes)

subsection \<open>Bytes of a number, and reading them back\<close>

lemma digits_Suc:
  "map (\<lambda>k. (word_of_int (w div 2 ^ (8 * k)) :: byte)) [0..<Suc n]
     = word_of_int w # map (\<lambda>k. word_of_int ((w div 256) div 2 ^ (8 * k))) [0..<n]"
  unfolding map_upt_Suc by (simp add: zdiv_zmult2_eq power_add del: upt_Suc)

lemma le_value_digits:
  "le_value (map (\<lambda>k. word_of_int (w div 2 ^ (8 * k))) [0..<n]) = w mod 2 ^ (8 * n)"
proof (induction n arbitrary: w)
  case 0
  then show ?case by simp
next
  case (Suc n)
  have "le_value (map (\<lambda>k. word_of_int (w div 2 ^ (8 * k))) [0..<Suc n])
          = uint (word_of_int w :: byte) + 256 * (w div 256 mod 2 ^ (8 * n))"
    by (simp only: digits_Suc le_value.simps Suc.IH)
  also have "\<dots> = w mod 2 ^ (8 * Suc n)"
    by (simp add: uint_word_of_int zmod_zmult2_eq power_add take_bit_eq_mod)
  finally show ?case .
qed

lemma le_value_uint_bytes: "le_value (uint_bytes n v) = v mod 2 ^ (8 * n)"
  using le_value_digits [of "v mod 2 ^ (8 * n)" n] by (simp add: uint_bytes_def)

lemma get_uint_at:
  assumes "out = pre @ uint_bytes n v @ post" and "length pre = byteOffset"
  shows "get_uint n out byteOffset True = Inr (v mod 2 ^ (8 * n))"
  using assms by (simp add: get_uint_def length_uint_bytes le_value_uint_bytes)

lemma sample_byte:
  "(word_of_int ((sint (s :: int16) mod 2 ^ (8 * 2)) div 2 ^ (8 * k)) :: byte)
     = ucast (drop_bit (8 * k) s)"
proof -
  have "(word_of_int (drop_bit (8 * k) (take_bit 16 (sint s))) :: byte) = ucast (drop_bit (8 * k) s)"
  proof (rule bit_word_eqI)
    fix n
    assume "n < LENGTH(8)"
    have "bit s (8 * k + n) \<Longrightarrow> 8 * k + n < 16"
      using bit_imp_le_length [of s "8 * k + n"] by simp
    moreover have "8 * k + n < 16 \<Longrightarrow> min 15 (8 * k + n) = 8 * k + n"
      by simp
    ultimately show "bit (word_of_int (drop_bit (8 * k) (take_bit 16 (sint s))) :: byte) n
            = bit (ucast (drop_bit (8 * k) s) :: byte) n"
      by (auto simp: bit_simps)
  qed
  then show ?thesis
    by (simp only: take_bit_eq_mod drop_bit_eq_div) simp
qed

lemma sample_pair: "uint_bytes 2 (sint (s :: int16)) = [ucast s, ucast (drop_bit 8 s)]"
proof -
  have "[0..<2] = [0, 1]" by (simp add: upt_rec)
  then show ?thesis
    unfolding uint_bytes_def using sample_byte [of s 0] sample_byte [of s 1]
    by simp
qed

lemma sample_bytes_at:
  "i < length p \<Longrightarrow> take 2 (drop (2 * i) (sample_bytes p)) = uint_bytes 2 (sint (p ! i))"
proof (induction p arbitrary: i)
  case Nil
  then show ?case by simp
next
  case (Cons s p)
  show ?case
  proof (cases i)
    case 0
    then show ?thesis by (simp add: sample_bytes_def length_uint_bytes)
  next
    case (Suc j)
    then show ?thesis
      using Cons.IH [of j] Cons.prems by (simp add: sample_bytes_def length_uint_bytes)
  qed
qed

subsection \<open>The header fields of an encoded file\<close>

lemma header_uint_at:
  assumes "m = v mod 2 ^ (8 * n)"
    and "length pre = byteOffset"
    and "pcmToWavBlob pcmData sampleRate numChannels = Inr (pre @ uint_bytes n v @ post)"
  shows "and_then (pcmToWavBlob pcmData sampleRate numChannels)
           (\<lambda>view. get_uint n view byteOffset True) = Inr m"
  using assms get_uint_at [OF refl assms(2), of n v post] by (simp add: and_then_def)

lemmas header_simps = pcmToWavBlob_bytes wav_header_def length_uint_bytes

lemma field_4:
  "header_uint32 (pcmToWavBlob p sr ch) 4 = Inr ((36 + 2 * int (length p)) mod 2 ^ 32)"
  unfolding header_uint32_def getUint32_def
  by (rule header_uint_at [where pre = "map of_char ''RIFF''"];
      simp add: header_simps)

lemma field_16: "header_uint32 (pcmToWavBlob p sr ch) 16 = Inr 16"
  unfolding header_uint32_def getUint32_def
  by (rule header_uint_at [where pre = "map of_char ''RIFF'' @
       uint_bytes 4 (36 + 2 * int (length p)) @ map of_char ''WAVE'' @ map of_char ''fmt ''"];
      simp add: header_simps)

lemma field_20: "header_uint16 (pcmToWavBlob p sr ch) 20 = Inr 1"
  unfolding header_uint16_def getUint16_def
  by (rule header_uint_at [where pre = "map of_char ''RIFF'' @
       uint_bytes 4 (36 + 2 * int (length p)) @ map of_char ''WAVE'' @ map of_char ''fmt '' @
       uint_bytes 4 16"];
      simp add: header_simps)

lemma field_22: "header_uint16 (pcmToWavBlob p sr ch) 22 = Inr (ch mod 2 ^ 16)"
  unfolding header_uint16_def getUint16_def
  by (rule header_uint_at [where pre = "map of_char ''RIFF'' @
       uint_bytes 4 (36 + 2 * int (length p)) @ map of_char ''WAVE'' @ map of_char ''fmt '' @
       uint_bytes 4 16 @ uint_bytes 2 1"];
      simp add: header_simps)

lemma field_24: "header_uint32 (pcmToWavBlob p sr ch) 24 = Inr (sr mod 2 ^ 32)"
  unfolding header_uint32_def getUint32_def
  by (rule header_uint_at [where pre = "map of_char ''RIFF'' @
       uint_bytes 4 (36 + 2 * int (length p)) @ map of_char ''WAVE'' @ map of_char ''fmt '' @
       uint_bytes 4 16 @ uint_bytes 2 1 @ uint_bytes 2 ch"];
      simp add: header_simps)

lemma field_28: "header_uint32 (pcmToWavBlob p sr ch) 28 = Inr ((sr * ch * 2) mod 2 ^ 32)"
  unfolding header_uint32_def getUint32_def
  by (rule header_uint_at [where pre = "map of_char ''RIFF'' @
       uint_bytes 4 (36 + 2 * int (length p)) @ map of_char ''WAVE'' @ map of_char ''fmt '' @
       uint_bytes 4 16 @ uint_bytes 2 1 @ uint_bytes 2 ch @ uint_bytes 4 sr"];
      simp add: header_simps)

lemma field_32: "header_uint16 (pcmToWavBlob p sr ch) 32 = Inr ((ch * 2) mod 2 ^ 16)"
  unfolding header_uint16_def getUint16_def
  by (rule header_uint_at [where pre = "map of_char ''RIFF'' @
       uint_bytes 4 (36 + 2 * int (length p)) @ map of_char ''WAVE'' @ map of_char ''fmt '' @
       uint_bytes 4 16 @ uint_bytes 2 1 @ uint_bytes 2 ch @ uint_bytes 4 sr @
       uint_bytes 4 (sr * ch * 2)"];
      simp add: header_simps)

lemma field_34: "header_uint16 (pcmToWavBlob p sr ch) 34 = Inr 16"
  unfolding header_uint16_def getUint16_def
  by (rule header_uint_at [where pre = "map of_char ''RIFF'' @
       uint_bytes 4 (36 + 2 * int (length p)) @ map of_char ''WAVE'' @ map of_char ''fmt '' @
       uint_bytes 4 16 @ uint_bytes 2 1 @ uint_bytes 2 ch @ uint_bytes 4 sr @
       uint_bytes 4 (sr * ch * 2) @ uint_bytes 2 (ch * 2)"];
      simp add: header_simps)

lemma field_40:
  "header_uint32 (pcmToWavBlob p sr ch) 40 = Inr ((2 * int (length p)) mod 2 ^ 32)"
  unfolding header_uint32_def getUint32_def
  by (rule header_uint_at [where pre = "map of_char ''RIFF'' @
       uint_bytes 4 (36 + 2 * int (length p)) @ map of_char ''WAVE'' @ map of_char ''fmt '' @
       uint_bytes 4 16 @ uint_bytes 2 1 @ uint_bytes 2 ch @ uint_bytes 4 sr @
       uint_bytes 4 (sr * ch * 2) @ uint_bytes 2 (ch * 2) @ uint_bytes 2 16 @
       map of_char ''data''"];
      simp add: header_simps)

lemma size_of_blob: "blob_size (pcmToWavBlob p sr ch) = Inr (44 + 2 * length p)"
  by (simp add: blob_size_def and_then_def pcmToWavBlob_bytes length_wav_header
      length_sample_bytes)

lemma markers:
  "blob_slice (pcmToWavBlob p sr ch) 0 4 = Inr (map of_char ''RIFF'')"
  "blob_slice (pcmToWavBlob p sr ch) 8 12 = Inr (map of_char ''WAVE'')"
  "blob_slice (pcmToWavBlob p sr ch) 12 16 = Inr (map of_char ''fmt '')"
  "blob_slice (pcmToWavBlob p sr ch) 36 40 = Inr (map of_char ''data'')"
  by (simp_all add: blob_slice_def and_then_def header_simps)

lemma payload:
  "blob_slice (pcmToWavBlob p sr ch) 44 (44 + 2 * length p) = Inr (sample_bytes p)"
  by (simp add: blob_slice_def and_then_def pcmToWavBlob_bytes length_wav_header
      length_sample_bytes)

lemma payload_at:
  "i < length p \<Longrightarrow>
   blob_slice (pcmToWavBlob p sr ch) (44 + 2 * i) (46 + 2 * i)
     = Inr [ucast (p ! i), ucast (drop_bit 8 (p ! i))]"
  using sample_bytes_at [of i p]
  by (simp add: blob_slice_def and_then_def pcmToWavBlob_bytes length_wav_header sample_pair)

lemma decode_header_blob:
  "and_then (pcmToWavBlob p sr ch) decode_header
     = Inr (sr mod 2 ^ 32, ch mod 2 ^ 16, (2 * int (length p)) mod 2 ^ 32 div 2)"
  using field_24 [of p sr ch] field_22 [of p sr ch] field_40 [of p sr ch]
  by (simp add: decode_header_def and_then_def header_uint32_def header_uint16_def
      pcmToWavBlob_bytes)


section \<open>Properties of the container encoder\<close>

text \<open>
  Claim C1, as the code has it. For every sample buffer of \<open>N\<close> samples and every sample rate
  and channel count, \<^const>\<open>pcmToWavBlob\<close> returns a buffer of exactly \<open>44 + 2N\<close> bytes. When
  \<open>36 + 2N\<close> fits 32 bits, the file-size field at bytes 4 to 7 is \<open>36 + 2N\<close> and the
  payload-size field at bytes 40 to 43 is \<open>2N\<close>. When moreover the sample rate fits 32 bits
  and the channel count 16 bits (both non-negative), decoding the header recovers the sample
  rate, the channel count and the sample count exactly.
\<close>

theorem pcmToWavBlob_framing:
  "blob_size (pcmToWavBlob pcmData sampleRate numChannels) = Inr (44 + 2 * length pcmData) \<and>
   (36 + 2 * int (length pcmData) < 2 ^ 32 \<longrightarrow>
      header_uint32 (pcmToWavBlob pcmData sampleRate numChannels) 4
        = Inr (36 + 2 * int (length pcmData)) \<and>
      header_uint32 (pcmToWavBlob pcmData sampleRate numChannels) 40
        = Inr (2 * int (length pcmData))) \<and>
   (36 + 2 * int (length pcmData) < 2 ^ 32 \<and> 0 \<le> sampleRate \<and> sampleRate < 2 ^ 32 \<and>
    0 \<le> numChannels \<and> numChannels < 2 ^ 16 \<longrightarrow>
      and_then (pcmToWavBlob pcmData sampleRate numChannels) decode_header
        = Inr (sampleRate, numChannels, int (length pcmData)))"
  by (simp add: size_of_blob field_4 field_40 decode_header_blob)

text \<open>
  The hypotheses of the framing theorem hold for three samples at 24000 Hz, one channel
  (the only format the program itself passes): 50 bytes, file size 42, payload size 6.
\<close>

theorem pcmToWavBlob_framing_witness:
  "36 + 2 * int (length [1, 2, 3 :: int16]) < 2 ^ 32 \<and> (0::int) \<le> 24000 \<and> (24000::int) < 2 ^ 32 \<and>
   (0::int) \<le> 1 \<and> (1::int) < 2 ^ 16 \<and>
   blob_size (pcmToWavBlob [1, 2, 3] 24000 1) = Inr 50 \<and>
   header_uint32 (pcmToWavBlob [1, 2, 3] 24000 1) 4 = Inr 42 \<and>
   header_uint32 (pcmToWavBlob [1, 2, 3] 24000 1) 40 = Inr 6 \<and>
   and_then (pcmToWavBlob [1, 2, 3] 24000 1) decode_header = Inr (24000, 1, 3)"
  using pcmToWavBlob_framing [of "[1, 2, 3]" 24000 1] by simp

text \<open>
  Claim C1 as stated, for any sample rate: a sample rate of \<open>2 ^ 32\<close> is written into a
  32-bit field, which then holds 0. The file is the very file written for sample rate 0, so
  no decoder can recover the sample rate from it.
\<close>

theorem pcmToWavBlob_framing_counterexample:
  "and_then (pcmToWavBlob [] 4294967296 1) decode_header = Inr (0, 1, 0) \<and>
   and_then (pcmToWavBlob [] 4294967296 1) decode_header \<noteq> Inr (4294967296, 1, 0) \<and>
   pcmToWavBlob [] 4294967296 1 = pcmToWavBlob [] 0 1"
proof -
  have "and_then (pcmToWavBlob [] 4294967296 1) decode_header = Inr (0, 1, 0)"
    by (simp add: decode_header_blob)
  moreover have "pcmToWavBlob [] 4294967296 1 = pcmToWavBlob [] 0 1"
    by (simp add: pcmToWavBlob_bytes wav_header_def uint_bytes_def)
  ultimately show ?thesis by simp
qed

text \<open>
  Claim C2, as the code has it. For every input, bytes 0 to 3, 8 to 11, 12 to 15 and 36 to 39
  of the encoded file are the ASCII markers \<open>RIFF\<close>, \<open>WAVE\<close>, \<open>fmt \<close> and \<open>data\<close>, the
  format-block length at bytes 16 to 19 is 16, the format code at bytes 20 and 21 is 1 and
  the bits per sample at bytes 34 and 35 are 16, all little-endian. The channel count at bytes
  22 and 23, the sample rate at bytes 24 to 27, the byte rate
  \<open>sampleRate * numChannels * 2\<close> at bytes 28 to 31 and the block alignment
  \<open>numChannels * 2\<close> at bytes 32 and 33 are stored exactly whenever the value is non-negative
  and fits its field.
\<close>

theorem pcmToWavBlob_header:
  "blob_slice (pcmToWavBlob pcmData sampleRate numChannels) 0 4 = Inr (map of_char ''RIFF'') \<and>
   blob_slice (pcmToWavBlob pcmData sampleRate numChannels) 8 12 = Inr (map of_char ''WAVE'') \<and>
   blob_slice (pcmToWavBlob pcmData sampleRate numChannels) 12 16 = Inr (map of_char ''fmt '') \<and>
   blob_slice (pcmToWavBlob pcmData sampleRate numChannels) 36 40 = Inr (map of_char ''data'') \<and>
   header_uint32 (pcmToWavBlob pcmData sampleRate numChannels) 16 = Inr 16 \<and>
   header_uint16 (pcmToWavBlob pcmData sampleRate numChannels) 20 = Inr 1 \<and>
   header_uint16 (pcmToWavBlob pcmData sampleRate numChannels) 34 = Inr 16 \<and>
   (0 \<le> numChannels \<and> numChannels < 2 ^ 16 \<longrightarrow>
      header_uint16 (pcmToWavBlob pcmData sampleRate numChannels) 22 = Inr numChannels) \<and>
   (0 \<le> sampleRate \<and> sampleRate < 2 ^ 32 \<longrightarrow>
      header_uint32 (pcmToWavBlob pcmData sampleRate numChannels) 24 = Inr sampleRate) \<and>
   (0 \<le> sampleRate * numChannels * 2 \<and> sampleRate * numChannels * 2 < 2 ^ 32 \<longrightarrow>
      header_uint32 (pcmToWavBlob pcmData sampleRate numChannels) 28
        = Inr (sampleRate * numChannels * 2)) \<and>
   (0 \<le> numChannels * 2 \<and> numChannels * 2 < 2 ^ 16 \<longrightarrow>
      header_uint16 (pcmToWavBlob pcmData sampleRate numChannels) 32 = Inr (numChannels * 2))"
  by (simp add: markers field_16 field_20 field_22 field_24 field_28 field_32 field_34)

text \<open>The header of a one-sample file at 24000 Hz, one channel: every hypothesis holds.\<close>

theorem pcmToWavBlob_header_witness:
  "(0::int) \<le> 1 \<and> (1::int) < 2 ^ 16 \<and> (0::int) \<le> 24000 \<and> (24000::int) < 2 ^ 32 \<and>
   (0::int) \<le> 24000 * 1 * 2 \<and> (24000::int) * 1 * 2 < 2 ^ 32 \<and>
   (0::int) \<le> 1 * 2 \<and> (1::int) * 2 < 2 ^ 16 \<and>
   blob_slice (pcmToWavBlob [7] 24000 1) 0 4 = Inr [0x52, 0x49, 0x46, 0x46] \<and>
   blob_slice (pcmToWavBlob [7] 24000 1) 8 12 = Inr [0x57, 0x41, 0x56, 0x45] \<and>
   blob_slice (pcmToWavBlob [7] 24000 1) 12 16 = Inr [0x66, 0x6D, 0x74, 0x20] \<and>
   blob_slice (pcmToWavBlob [7] 24000 1) 36 40 = Inr [0x64, 0x61, 0x74, 0x61] \<and>
   header_uint32 (pcmToWavBlob [7] 24000 1) 16 = Inr 16 \<and>
   header_uint16 (pcmToWavBlob [7] 24000 1) 20 = Inr 1 \<and>
   header_uint16 (pcmToWavBlob [7] 24000 1) 34 = Inr 16 \<and>
   header_uint16 (pcmToWavBlob [7] 24000 1) 22 = Inr 1 \<and>
   header_uint32 (pcmToWavBlob [7] 24000 1) 24 = Inr 24000 \<and>
   header_uint32 (pcmToWavBlob [7] 24000 1) 28 = Inr 48000 \<and>
   header_uint16 (pcmToWavBlob [7] 24000 1) 32 = Inr 2"
  using pcmToWavBlob_header [of "[7]" 24000 1] by simp

text \<open>
  Claim C2 as stated, for every input: with 65536 channels the 16-bit field at bytes 22 and
  23 holds 0, not the channel count.
\<close>

theorem pcmToWavBlob_header_counterexample:
  "header_uint16 (pcmToWavBlob [] 24000 65536) 22 = Inr 0 \<and>
   header_uint16 (pcmToWavBlob [] 24000 65536) 22 \<noteq> Inr 65536"
  by (simp add: field_22)

text \<open>
  Claim C3, as the code has it. \<^const>\<open>pcmToWavBlob\<close> validates nothing: it returns a file for
  every sample rate, every channel count and every sample value. In particular, with a zero
  or negative sample rate or channel count it still emits the header, of \<open>44 + 2N\<close> bytes in
  all, whose channel-count and sample-rate fields hold the value reduced modulo \<open>2 ^ 16\<close>
  and \<open>2 ^ 32\<close>, followed by the unchanged samples.
\<close>

theorem pcmToWavBlob_no_validation:
  "(\<exists>out. pcmToWavBlob pcmData sampleRate numChannels = Inr out) \<and>
   (sampleRate \<le> 0 \<or> numChannels \<le> 0 \<longrightarrow>
      blob_size (pcmToWavBlob pcmData sampleRate numChannels) = Inr (44 + 2 * length pcmData) \<and>
      blob_slice (pcmToWavBlob pcmData sampleRate numChannels) 0 4 = Inr (map of_char ''RIFF'') \<and>
      header_uint16 (pcmToWavBlob pcmData sampleRate numChannels) 22 = Inr (numChannels mod 2 ^ 16) \<and>
      header_uint32 (pcmToWavBlob pcmData sampleRate numChannels) 24 = Inr (sampleRate mod 2 ^ 32) \<and>
      blob_slice (pcmToWavBlob pcmData sampleRate numChannels) 44 (44 + 2 * length pcmData)
        = Inr (sample_bytes pcmData))"
  by (simp add: pcmToWavBlob_bytes [of pcmData sampleRate numChannels, symmetric] size_of_blob markers field_22 field_24 payload) (simp add: pcmToWavBlob_bytes)

text \<open>
  Sample rate 0 and channel count \<open>-1\<close>, with the two extreme sample values: a 48-byte file
  is returned, and its channel-count field holds 65535.
\<close>

theorem pcmToWavBlob_no_validation_witness:
  "((0::int) \<le> 0 \<or> (-1::int) \<le> 0) \<and>
   (\<exists>out. pcmToWavBlob [-32768, 32767] 0 (-1) = Inr out) \<and>
   blob_size (pcmToWavBlob [-32768, 32767] 0 (-1)) = Inr 48 \<and>
   blob_slice (pcmToWavBlob [-32768, 32767] 0 (-1)) 0 4 = Inr [0x52, 0x49, 0x46, 0x46] \<and>
   header_uint16 (pcmToWavBlob [-32768, 32767] 0 (-1)) 22 = Inr 65535 \<and>
   header_uint32 (pcmToWavBlob [-32768, 32767] 0 (-1)) 24 = Inr 0 \<and>
   blob_slice (pcmToWavBlob [-32768, 32767] 0 (-1)) 44 48 = Inr [0x00, 0x80, 0xFF, 0x7F]"
  using pcmToWavBlob_no_validation [of "[-32768, 32767]" 0 "-1"]
  by (simp add: sample_bytes_def uint_bytes_def upt_rec)

text \<open>
  Claim C3 as stated: for sample rate 0 and channel count \<open>-1\<close> the encoder does not fail;
  it returns this 44-byte header.
\<close>

theorem pcmToWavBlob_no_validation_counterexample:
  "pcmToWavBlob [] 0 (-1) =
     Inr [82, 73, 70, 70, 36, 0, 0, 0, 87, 65, 86, 69, 102, 109, 116, 32, 16, 0, 0, 0, 1, 0,
          255, 255, 0, 0, 0, 0, 0, 0, 0, 0, 254, 255, 16, 0, 100, 97, 116, 97, 0, 0, 0, 0]"
  by (simp add: pcmToWavBlob_bytes wav_header_def sample_bytes_def uint_bytes_def upt_rec)

text \<open>
  Claim C4. The bytes from offset 44 on are the samples in order, each as two bytes, low byte
  first: sample \<open>i\<close> occupies offsets \<open>44 + 2i\<close> and \<open>45 + 2i\<close>. For the single sample
  \<open>-1\<close> the bytes at offsets 44 and 45 are \<open>0xFF 0xFF\<close>, and for the single sample 256
  they are \<open>0x00 0x01\<close>, whatever the sample rate and the channel count.
\<close>

theorem pcmToWavBlob_payload:
  "blob_slice (pcmToWavBlob pcmData sampleRate numChannels) 44 (44 + 2 * length pcmData)
     = Inr (concat (map (\<lambda>s. [ucast s, ucast (drop_bit 8 s)]) pcmData)) \<and>
   (\<forall>i < length pcmData.
      blob_slice (pcmToWavBlob pcmData sampleRate numChannels) (44 + 2 * i) (46 + 2 * i)
        = Inr [ucast (pcmData ! i), ucast (drop_bit 8 (pcmData ! i))]) \<and>
   blob_slice (pcmToWavBlob [-1] sampleRate numChannels) 44 46 = Inr [0xFF, 0xFF] \<and>
   blob_slice (pcmToWavBlob [256] sampleRate numChannels) 44 46 = Inr [0x00, 0x01]"
proof -
  have "sample_bytes pcmData = concat (map (\<lambda>s. [ucast s, ucast (drop_bit 8 s)]) pcmData)"
    by (simp add: sample_bytes_def sample_pair)
  moreover have "sample_bytes [-1] = [0xFF, 0xFF]" and "sample_bytes [256] = [0x00, 0x01]"
    by (simp_all add: sample_bytes_def uint_bytes_def upt_rec)
  ultimately show ?thesis
    using payload [of "[-1]" sampleRate numChannels] payload [of "[256]" sampleRate numChannels]
    by (simp add: payload payload_at)
qed

text \<open>The payload of the two-sample buffer \<open>[-1, 256]\<close>, read whole and sample by sample.\<close>

theorem pcmToWavBlob_payload_witness:
  "(0::nat) < length [-1, 256 :: int16] \<and> (1::nat) < length [-1, 256 :: int16] \<and>
   blob_slice (pcmToWavBlob [-1, 256] 24000 1) 44 48 = Inr [0xFF, 0xFF, 0x00, 0x01] \<and>
   blob_slice (pcmToWavBlob [-1, 256] 24000 1) 44 46 = Inr [0xFF, 0xFF] \<and>
   blob_slice (pcmToWavBlob [-1, 256] 24000 1) 46 48 = Inr [0x00, 0x01]"
proof -
  note t = pcmToWavBlob_payload [of "[-1, 256]" 24000 1]
  note t0 = t [THEN conjunct2, THEN conjunct1, rule_format, of 0]
  note t1 = t [THEN conjunct2, THEN conjunct1, rule_format, of 1]
  have u: "[ucast (-1 :: int16), ucast (drop_bit 8 (-1 :: int16))] = [0xFF, 0xFF :: byte]"
    "[ucast (256 :: int16), ucast (drop_bit 8 (256 :: int16))] = [0, 1 :: byte]"
    by (simp_all only: sample_pair [symmetric]) (simp_all add: uint_bytes_def upt_rec)
  have "blob_slice (pcmToWavBlob [-1, 256] 24000 1) 44 48 = Inr [0xFF, 0xFF, 0x00, 0x01]"
    using t [THEN conjunct1] u by simp
  moreover have "blob_slice (pcmToWavBlob [-1, 256] 24000 1) 44 46 = Inr [0xFF, 0xFF]"
    using t0 u by simp
  moreover have "blob_slice (pcmToWavBlob [-1, 256] 24000 1) 46 48 = Inr [0x00, 0x01]"
    using t1 u by simp
  ultimately show ?thesis by simp
qed


section \<open>Properties of the byte-stream decoder\<close>

declare decode_loop.simps [simp del]

lemma decode_loop_eq:
  "i \<le> length s \<Longrightarrow> length bytes = length s \<Longrightarrow>
   decode_loop s bytes (length s) i
     = take i bytes @ map (\<lambda>c. word_of_int (int (of_char c))) (drop i s)"
proof (induction "length s - i" arbitrary: i bytes)
  case 0
  then show ?case by (subst decode_loop.simps) simp
next
  case (Suc m)
  then have lt: "i < length s" by simp
  let ?b = "word_of_int (int (of_char (s ! i))) :: byte"
  have "decode_loop s bytes (length s) i = decode_loop s (bytes[i := ?b]) (length s) (Suc i)"
    using lt by (subst decode_loop.simps) simp
  also have "\<dots> = take (Suc i) (bytes[i := ?b]) @ map (\<lambda>c. word_of_int (int (of_char c))) (drop (Suc i) s)"
    using Suc.hyps(2) Suc.prems lt by (intro Suc.hyps(1)) auto
  also have "take (Suc i) (bytes[i := ?b]) = take i bytes @ [?b]"
    using lt Suc.prems(2) by (simp add: take_Suc_conv_app_nth)
  finally show ?case
    using lt by (simp add: Cons_nth_drop_Suc [symmetric])
qed

lemma decode_bytes:
  "atob base64 = Inr binaryString \<Longrightarrow>
   decode atob base64 = Inr (map (\<lambda>c. word_of_int (int (of_char c))) binaryString)"
  by (simp add: decode_def and_then_def Let_def decode_loop_eq)

lemma decode_fails: "atob base64 = Inl e \<Longrightarrow> decode atob base64 = Inl e"
  by (simp add: decode_def and_then_def)

text \<open>
  Claim C5. Reinterpreting a decoded byte buffer as 16-bit samples fails for every buffer of
  odd length, in particular for length 3, and for every buffer of \<open>2k\<close> bytes it succeeds
  with exactly \<open>k\<close> samples, so length 4 gives exactly 2 samples. The failure is the
  platform's \<open>RangeError\<close>, which is the malformed-audio failure of the specification; it
  propagates out of \<^verbatim>\<open>handleGenerateSpeech\<close> when the payload decodes to an odd number of
  bytes.
\<close>

theorem new_Int16Array_length:
  "(odd (length bytes) \<longrightarrow> new_Int16Array bytes = Inl RangeError) \<and>
   (length bytes = 2 * k \<longrightarrow>
      (\<exists>pcmData. new_Int16Array bytes = Inr pcmData \<and> length pcmData = k)) \<and>
   (length bytes = 3 \<longrightarrow> new_Int16Array bytes = Inl RangeError) \<and>
   (length bytes = 4 \<longrightarrow>
      (\<exists>pcmData. new_Int16Array bytes = Inr pcmData \<and> length pcmData = 2)) \<and>
   (base64 \<noteq> [] \<and> atob base64 = Inr binaryString \<and> odd (length binaryString) \<longrightarrow>
      handleGenerateSpeech_wav atob (Some base64) = Inl RangeError)"
  by (auto simp: new_Int16Array_def handleGenerateSpeech_wav_def decode_bytes and_then_def
      odd_iff_mod_2_eq_one)

text \<open>A buffer of 3 bytes is rejected, one of 4 bytes gives 2 samples.\<close>

theorem new_Int16Array_length_witness:
  "odd (length [1, 2, 3 :: byte]) \<and> new_Int16Array [1, 2, 3] = Inl RangeError \<and>
   length [1, 2, 3, 255 :: byte] = 2 * 2 \<and> length [1, 2, 3, 255 :: byte] = 4 \<and>
   (\<exists>pcmData. new_Int16Array [1, 2, 3, 255] = Inr pcmData \<and> length pcmData = 2) \<and>
   ''QUJD'' \<noteq> [] \<and> (\<lambda>_. Inr ''ABC'') ''QUJD'' = (Inr ''ABC'' :: error + string) \<and>
   odd (length ''ABC'') \<and>
   handleGenerateSpeech_wav (\<lambda>_. Inr ''ABC'') (Some ''QUJD'') = Inl RangeError"
  using new_Int16Array_length [of "[1, 2, 3]" 2 "''QUJD''" "\<lambda>_. Inr ''ABC''" "''ABC''"]
    new_Int16Array_length [of "[1, 2, 3, 255]" 2 "''QUJD''" "\<lambda>_. Inr ''ABC''" "''ABC''"]
  by simp





section \<open>Properties of the playback sessions\<close>

subsection \<open>The invariant holds in every reachable state, and no handler throws\<close>

lemma sessions_ok_iff:
  "sessions_ok s \<longleftrightarrow>
     (isPlaying s \<longleftrightarrow> sourceNodeRef s \<noteq> None) \<and>
     distinct (finished s) \<and>
     (\<forall>n \<in> set (finished s). n < length (nodes s)) \<and>
     (\<forall>n. sourceNodeRef s = Some n \<longrightarrow> n < length (nodes s) \<and> n \<notin> set (finished s)) \<and>
     (\<forall>n < length (nodes s).
        if sourceNodeRef s = Some n then current_ok (nodes s ! n)
        else retired_ok (n \<in> set (finished s)) (nodes s ! n))"
  unfolding sessions_ok_def by (cases "sourceNodeRef s") auto

lemma sessions_ok_initial: "sessions_ok (initial ctx)"
  by (simp add: sessions_ok_iff initial_def)

lemma stopPlayback_idle: "sourceNodeRef s = None \<Longrightarrow> stopPlayback s = Inr s"
  by (simp add: stopPlayback_def)

lemma stopPlayback_current:
  assumes "sessions_ok s" and "sourceNodeRef s = Some n"
  shows "stopPlayback s =
           Inr (s\<lparr>nodes := (nodes s)[n := (nodes s ! n)\<lparr>onended := None,
                      phase := Finishing, stopRequested := True\<rparr>],
                  sourceNodeRef := None, isPlaying := False\<rparr>)"
proof -
  have "n < length (nodes s)" and "current_ok (nodes s ! n)"
    using assms by (auto simp: sessions_ok_iff)
  then show ?thesis
    using assms(2)
    by (auto simp: stopPlayback_def node_stop_def and_then_def current_ok_def)
qed

lemma stopPlayback_ok:
  assumes "sessions_ok s"
  shows "\<exists>s'. stopPlayback s = Inr s' \<and> sessions_ok s' \<and> sourceNodeRef s' = None \<and>
           \<not> isPlaying s' \<and> finished s' = finished s \<and> length (nodes s') = length (nodes s) \<and>
           rate s' = rate s \<and> pitch s' = pitch s \<and> audioBuffer s' = audioBuffer s \<and>
           audioContextRef s' = audioContextRef s"
proof (cases "sourceNodeRef s")
  case None
  then show ?thesis
    using assms by (simp add: stopPlayback_idle) (simp add: sessions_ok_iff)
next
  case (Some n)
  have "sessions_ok (s\<lparr>nodes := (nodes s)[n := (nodes s ! n)\<lparr>onended := None,
                      phase := Finishing, stopRequested := True\<rparr>],
                  sourceNodeRef := None, isPlaying := False\<rparr>)"
    using assms Some
    by (auto simp: sessions_ok_iff nth_list_update retired_ok_def current_ok_def split: if_splits)
  then show ?thesis
    using stopPlayback_current [OF assms Some] by simp
qed


lemma handlePlayStop_play:
  assumes "audioContextRef s = Some c" and "\<not> isPlaying s"
    and "audioBuffer s = Some b"
  shows "handlePlayStop s =
           Inr (s\<lparr>audioContextRef := Some (if c = Suspended then Running else c),
                  nodes := nodes s @
                    [\<lparr>buffer = Some b, playbackRate = rate s, detune = pitch s * 100,
                      connected = True, onended = Some SessionEnded, phase = Playing,
                      stopRequested = False\<rparr>],
                  sourceNodeRef := Some (length (nodes s)), isPlaying := True\<rparr>)"
  using assms
  by (simp add: handlePlayStop_def Let_def createBufferSource_def node_start_def and_then_def)

lemma sessions_ok_context:
  "sessions_ok (s\<lparr>audioContextRef := c\<rparr>) = sessions_ok s"
  by (simp add: sessions_ok_iff)

lemma handlePlayStop_ok:
  assumes "sessions_ok s"
  shows "\<exists>s'. handlePlayStop s = Inr s' \<and> sessions_ok s'"
proof (cases "audioContextRef s")
  case None
  then show ?thesis using assms by (simp add: handlePlayStop_def)
next
  case (Some c)
  let ?s = "if c = Suspended then s\<lparr>audioContextRef := Some Running\<rparr> else s"
  have ok: "sessions_ok ?s"
    using assms by (simp add: sessions_ok_context)
  show ?thesis
  proof (cases "isPlaying s")
    case True
    then have "handlePlayStop s = stopPlayback ?s"
      using Some by (simp add: handlePlayStop_def Let_def)
    then show ?thesis
      using stopPlayback_ok [OF ok] by auto
  next
    case False
    show ?thesis
    proof (cases "audioBuffer s")
      case None
      then show ?thesis
        using Some False ok by (auto simp: handlePlayStop_def Let_def)
    next
      case (Some b)
      have idle: "sourceNodeRef s = None"
        using assms False by (simp add: sessions_ok_iff)
      have "sessions_ok (s\<lparr>audioContextRef := Some (if c = Suspended then Running else c),
                  nodes := nodes s @
                    [\<lparr>buffer = Some b, playbackRate = rate s, detune = pitch s * 100,
                      connected = True, onended = Some SessionEnded, phase = Playing,
                      stopRequested = False\<rparr>],
                  sourceNodeRef := Some (length (nodes s)), isPlaying := True\<rparr>)"
        using assms idle
        by (auto simp: sessions_ok_iff nth_append current_ok_def less_Suc_eq)
      then show ?thesis
        using handlePlayStop_play [OF \<open>audioContextRef s = Some c\<close> False Some] by simp
    qed
  qed
qed

lemma handleRateChange_ok:
  assumes "sessions_ok s"
  shows "\<exists>s'. handleRateChange v s = Inr s' \<and> sessions_ok s'"
proof -
  obtain s1 where "stopPlayback s = Inr s1" "sessions_ok s1"
    using stopPlayback_ok [OF assms] by blast
  then show ?thesis
    by (simp add: handleRateChange_def and_then_def sessions_ok_iff)
qed

lemma handlePitchChange_ok:
  assumes "sessions_ok s"
  shows "\<exists>s'. handlePitchChange v s = Inr s' \<and> sessions_ok s'"
proof -
  obtain s1 where "stopPlayback s = Inr s1" "sessions_ok s1"
    using stopPlayback_ok [OF assms] by blast
  then show ?thesis
    by (simp add: handlePitchChange_def and_then_def sessions_ok_iff)
qed

lemma handleGenerateSpeech_begin_ok:
  assumes "sessions_ok s"
  shows "\<exists>s'. handleGenerateSpeech_begin txt s = Inr s' \<and> sessions_ok s'"
proof (cases "trim txt = []")
  case True
  then show ?thesis
    using assms by (simp add: handleGenerateSpeech_begin_def sessions_ok_iff)
next
  case False
  have "sessions_ok (s\<lparr>loading := True, error := []\<rparr>)"
    using assms by (simp add: sessions_ok_iff)
  then obtain s1 where "stopPlayback (s\<lparr>loading := True, error := []\<rparr>) = Inr s1" "sessions_ok s1"
    using stopPlayback_ok by blast
  then show ?thesis
    using False by (simp add: handleGenerateSpeech_begin_def and_then_def sessions_ok_iff)
qed

lemma handleGenerateSpeech_settle_ok:
  "sessions_ok s \<Longrightarrow> sessions_ok (handleGenerateSpeech_settle message outcome s)"
  by (cases outcome) (simp_all add: handleGenerateSpeech_settle_def sessions_ok_iff)

lemma render_end_ok:
  assumes "sessions_ok s"
  shows "sessions_ok (render_end n s)"
proof (cases "n < length (nodes s) \<and> phase (nodes s ! n) = Playing")
  case False
  then show ?thesis using assms by (auto simp: render_end_def)
next
  case True
  then have cur: "sourceNodeRef s = Some n"
    using assms by (auto simp: sessions_ok_iff retired_ok_def split: if_splits)
  show ?thesis
    using assms True cur
    by (auto simp: render_end_def sessions_ok_iff nth_list_update current_ok_def)
qed

lemma dispatch_ended_ok:
  assumes "sessions_ok s"
  shows "sessions_ok (dispatch_ended n s)"
proof (cases "n < length (nodes s) \<and> phase (nodes s ! n) = Finishing")
  case False
  then show ?thesis using assms by (auto simp: dispatch_ended_def)
next
  case True
  show ?thesis
  proof (cases "sourceNodeRef s = Some n")
    case cur: True
    then have h: "onended (nodes s ! n) = Some SessionEnded" "\<not> stopRequested (nodes s ! n)"
      "n \<notin> set (finished s)"
      using assms True by (auto simp: sessions_ok_iff current_ok_def)
    have "dispatch_ended n s =
            s\<lparr>nodes := (nodes s)[n := (nodes s ! n)\<lparr>phase := Done\<rparr>],
              isPlaying := False, sourceNodeRef := None, finished := finished s @ [n]\<rparr>"
      using True h by (simp add: dispatch_ended_def Let_def onended_closure_def)
    moreover have "sessions_ok (s\<lparr>nodes := (nodes s)[n := (nodes s ! n)\<lparr>phase := Done\<rparr>],
              isPlaying := False, sourceNodeRef := None, finished := finished s @ [n]\<rparr>)"
      using assms True cur h
      by (auto simp: sessions_ok_iff nth_list_update retired_ok_def)
    ultimately show ?thesis by simp
  next
    case other: False
    then have h: "onended (nodes s ! n) = None"
      using assms True by (auto simp: sessions_ok_iff retired_ok_def split: if_splits)
    have "dispatch_ended n s = s\<lparr>nodes := (nodes s)[n := (nodes s ! n)\<lparr>phase := Done\<rparr>]\<rparr>"
      using True h by (simp add: dispatch_ended_def Let_def)
    moreover have "sessions_ok (s\<lparr>nodes := (nodes s)[n := (nodes s ! n)\<lparr>phase := Done\<rparr>]\<rparr>)"
      using assms True other h
      by (auto simp: sessions_ok_iff nth_list_update retired_ok_def split: if_splits)
    ultimately show ?thesis by simp
  qed
qed

lemma step_ok:
  assumes "sessions_ok s"
  shows "\<exists>s'. step message ev s = Inr s' \<and> sessions_ok s'"
proof (cases ev)
  case PlayStop
  then show ?thesis using handlePlayStop_ok [OF assms] by simp
next
  case (RateChange v)
  then show ?thesis using handleRateChange_ok [OF assms] by simp
next
  case (PitchChange v)
  then show ?thesis using handlePitchChange_ok [OF assms] by simp
next
  case (GenerateSpeech str)
  then show ?thesis using handleGenerateSpeech_begin_ok [OF assms] by simp
next
  case (SpeechSettled outcome)
  then show ?thesis using handleGenerateSpeech_settle_ok [OF assms] by simp
next
  case (RenderEnd n)
  then show ?thesis using render_end_ok [OF assms] by simp
next
  case (EndedEvent n)
  then show ?thesis using dispatch_ended_ok [OF assms] by simp
qed

lemma run_ok:
  "sessions_ok s \<Longrightarrow> \<exists>s'. run message s evs = Inr s' \<and> sessions_ok s'"
proof (induction evs arbitrary: s)
  case Nil
  then show ?case by simp
next
  case (Cons ev evs)
  obtain s1 where s1: "step message ev s = Inr s1" "sessions_ok s1"
    using step_ok [OF Cons.prems] by blast
  then show ?case
    using Cons.IH [OF s1(2)] by (simp add: and_then_def)
qed

lemma reachable_ok:
  "\<exists>s. run message (initial ctx) evs = Inr s \<and> sessions_ok s"
  by (rule run_ok) (rule sessions_ok_initial)


subsection \<open>Consequences of the invariant\<close>

lemma idle_no_rendering:
  assumes "sessions_ok s" and "sourceNodeRef s = None"
  shows "filter (\<lambda>source. phase source = Playing) (nodes s) = []"
proof -
  have "\<forall>n < length (nodes s). phase (nodes s ! n) \<noteq> Playing"
    using assms by (auto simp: sessions_ok_iff retired_ok_def split: if_splits)
  then show ?thesis
    by (auto simp: filter_empty_conv in_set_conv_nth)
qed

lemma idle_no_notification:
  assumes "sessions_ok s" and "sourceNodeRef s = None"
  shows "finished (dispatch_ended n s) = finished s"
proof (cases "n < length (nodes s) \<and> phase (nodes s ! n) = Finishing")
  case False
  then show ?thesis by (auto simp: dispatch_ended_def)
next
  case True
  then have "onended (nodes s ! n) = None"
    using assms by (auto simp: sessions_ok_iff retired_ok_def split: if_splits)
  then show ?thesis
    using True by (simp add: dispatch_ended_def Let_def)
qed

lemma at_most_one:
  "(\<forall>i < length xs. \<forall>j < length xs. P (xs ! i) \<longrightarrow> P (xs ! j) \<longrightarrow> i = j) \<Longrightarrow>
   length (filter P xs) \<le> 1"
proof (induction xs)
  case Nil
  then show ?case by simp
next
  case (Cons x xs)
  have tail: "\<forall>i < length xs. \<forall>j < length xs. P (xs ! i) \<longrightarrow> P (xs ! j) \<longrightarrow> i = j"
  proof (intro allI impI)
    fix i j
    assume "i < length xs" "j < length xs" "P (xs ! i)" "P (xs ! j)"
    then have "Suc i = Suc j"
      using Cons.prems [rule_format, of "Suc i" "Suc j"] by simp
    then show "i = j" by simp
  qed
  show ?case
  proof (cases "P x")
    case False
    then show ?thesis using Cons.IH [OF tail] by simp
  next
    case True
    have "\<not> P (xs ! j)" if "j < length xs" for j
      using Cons.prems [rule_format, of 0 "Suc j"] True that by auto
    then have "filter P xs = []"
      by (auto simp: filter_empty_conv in_set_conv_nth)
    then show ?thesis using True by simp
  qed
qed

lemma one_rendering:
  assumes "sessions_ok s"
  shows "length (filter (\<lambda>source. phase source = Playing) (nodes s)) \<le> 1"
proof (rule at_most_one, intro allI impI)
  fix i j
  assume "i < length (nodes s)" "j < length (nodes s)"
    "phase (nodes s ! i) = Playing" "phase (nodes s ! j) = Playing"
  then have "sourceNodeRef s = Some i" "sourceNodeRef s = Some j"
    using assms by (auto simp: sessions_ok_iff retired_ok_def split: if_splits)
  then show "i = j" by simp
qed

lemma exclusive_outcomes:
  assumes "sessions_ok s" and "n < length (nodes s)"
  shows "\<not> (stopRequested (nodes s ! n) \<and> n \<in> set (finished s))"
  using assms by (auto simp: sessions_ok_iff retired_ok_def current_ok_def split: if_splits)

lemma natural_completion:
  assumes "sessions_ok s" and "sourceNodeRef s = Some n" and "phase (nodes s ! n) = Playing"
  shows "dispatch_ended n (render_end n s) =
           s\<lparr>nodes := (nodes s)[n := (nodes s ! n)\<lparr>phase := Done\<rparr>],
             isPlaying := False, sourceNodeRef := None, finished := finished s @ [n]\<rparr>"
proof -
  have "n < length (nodes s)" "onended (nodes s ! n) = Some SessionEnded"
    using assms by (auto simp: sessions_ok_iff current_ok_def)
  then show ?thesis
    using assms(3) by (simp add: render_end_def dispatch_ended_def Let_def onended_closure_def)
qed

text \<open>
  Claim C6. In every state the component can reach, from its initial state and by any
  sequence of user actions, settled synthesis requests and platform events: at most one
  session is rendering; no session is notified as finished more than once; no session has
  both been stopped explicitly and been notified as finished; and when the current session
  is rendering and reaches the end of its buffer, the dispatch of its \<^verbatim>\<open>ended\<close> event with
  no stop in between leaves the engine idle (\<open>isPlaying\<close> false, no current node) and adds
  exactly one "finished" notification, the only one this session ever has.
\<close>

theorem one_session_one_outcome:
  "\<exists>s. run message (initial ctx) evs = Inr s \<and>
     length (filter (\<lambda>source. phase source = Playing) (nodes s)) \<le> 1 \<and>
     distinct (finished s) \<and>
     (\<forall>n < length (nodes s). \<not> (stopRequested (nodes s ! n) \<and> n \<in> set (finished s))) \<and>
     (\<forall>n. sourceNodeRef s = Some n \<and> phase (nodes s ! n) = Playing \<longrightarrow>
        \<not> isPlaying (dispatch_ended n (render_end n s)) \<and>
        sourceNodeRef (dispatch_ended n (render_end n s)) = None \<and>
        finished (dispatch_ended n (render_end n s)) = finished s @ [n] \<and>
        count_list (finished (dispatch_ended n (render_end n s))) n = 1)"
proof -
  obtain s where s: "run message (initial ctx) evs = Inr s" "sessions_ok s"
    using reachable_ok by blast
  have "count_list (finished s @ [n]) n = 1" if "sourceNodeRef s = Some n" for n
  proof -
    have "n \<notin> set (finished s)"
      using s(2) that by (simp add: sessions_ok_iff)
    then show ?thesis by (simp add: count_list_0_iff)
  qed
  moreover have "distinct (finished s)"
    using s(2) by (simp add: sessions_ok_iff)
  ultimately show ?thesis
    using s one_rendering [OF s(2)] exclusive_outcomes [OF s(2)]
    by (auto simp: natural_completion)
qed


subsection \<open>Stopping\<close>

lemma stopPlayback_keeps_stop:
  assumes "sessions_ok s" and "stopPlayback s = Inr s'"
    and "n < length (nodes s)" and "stopRequested (nodes s ! n)"
  shows "n < length (nodes s') \<and> stopRequested (nodes s' ! n)"
proof (cases "sourceNodeRef s")
  case None
  then show ?thesis using assms by (simp add: stopPlayback_idle)
next
  case (Some m)
  have "m < length (nodes s)"
    using assms(1) Some by (simp add: sessions_ok_iff)
  then show ?thesis
    using assms stopPlayback_current [OF assms(1) Some]
    by (cases "n = m") (auto simp: nth_list_update)
qed

lemma step_keeps_stop:
  assumes "sessions_ok s" and "step message ev s = Inr s'"
    and "n < length (nodes s)" and "stopRequested (nodes s ! n)"
  shows "n < length (nodes s') \<and> stopRequested (nodes s' ! n)"
proof (cases ev)
  case PlayStop
  show ?thesis
  proof (cases "audioContextRef s")
    case None
    then show ?thesis using assms PlayStop by (simp add: handlePlayStop_def)
  next
    case (Some c)
    let ?s = "if c = Suspended then s\<lparr>audioContextRef := Some Running\<rparr> else s"
    have ok: "sessions_ok ?s" and same: "nodes ?s = nodes s"
      using assms(1) by (simp_all add: sessions_ok_context)
    show ?thesis
    proof (cases "isPlaying s")
      case True
      then have "handlePlayStop s = stopPlayback ?s"
        using Some by (simp add: handlePlayStop_def Let_def)
      then have "stopPlayback ?s = Inr s'"
        using assms(2) PlayStop by simp
      then show ?thesis
        using stopPlayback_keeps_stop [OF ok, of s' n] assms(3,4) same by simp
    next
      case False
      show ?thesis
      proof (cases "audioBuffer s")
        case None
        then have "handlePlayStop s = Inr ?s"
          using Some False by (simp add: handlePlayStop_def Let_def)
        then have "s' = ?s"
          using assms(2) PlayStop by simp
        then show ?thesis
          using assms(3,4) same by simp
      next
        case (Some b)
        then show ?thesis
          using assms PlayStop handlePlayStop_play [OF \<open>audioContextRef s = Some c\<close> False Some]
          by (auto simp: nth_append)
      qed
    qed
  qed
next
  case (RateChange v)
  then obtain s1 where "stopPlayback s = Inr s1" "s' = s1\<lparr>rate := v\<rparr>"
    using assms(2) by (auto simp: handleRateChange_def and_then_def split: sum.splits)
  then show ?thesis
    using stopPlayback_keeps_stop [OF assms(1) _ assms(3,4), of s1] by simp
next
  case (PitchChange v)
  then obtain s1 where "stopPlayback s = Inr s1" "s' = s1\<lparr>pitch := v\<rparr>"
    using assms(2) by (auto simp: handlePitchChange_def and_then_def split: sum.splits)
  then show ?thesis
    using stopPlayback_keeps_stop [OF assms(1) _ assms(3,4), of s1] by simp
next
  case (GenerateSpeech str)
  show ?thesis
  proof (cases "trim str = []")
    case True
    then show ?thesis
      using assms GenerateSpeech by (auto simp: handleGenerateSpeech_begin_def)
  next
    case False
    have ok: "sessions_ok (s\<lparr>loading := True, error := []\<rparr>)"
      using assms(1) by (simp add: sessions_ok_iff)
    obtain s1 where "stopPlayback (s\<lparr>loading := True, error := []\<rparr>) = Inr s1"
        "s' = s1\<lparr>audioBuffer := None\<rparr>"
      using assms(2) GenerateSpeech False
      by (auto simp: handleGenerateSpeech_begin_def and_then_def split: sum.splits)
    then show ?thesis
      using stopPlayback_keeps_stop [OF ok, of s1 n] assms(3,4) by simp
  qed
next
  case (SpeechSettled outcome)
  then show ?thesis
    using assms by (cases outcome) (auto simp: handleGenerateSpeech_settle_def)
next
  case (RenderEnd m)
  then show ?thesis
    using assms by (auto simp: render_end_def nth_list_update)
next
  case (EndedEvent m)
  then show ?thesis
    using assms
    by (auto simp: dispatch_ended_def Let_def onended_closure_def nth_list_update
        split: option.splits handler.splits)
qed

lemma run_keeps_stop:
  "sessions_ok s \<Longrightarrow> n < length (nodes s) \<Longrightarrow> stopRequested (nodes s ! n) \<Longrightarrow>
   \<exists>s'. run message s evs = Inr s' \<and> sessions_ok s' \<and>
        n < length (nodes s') \<and> stopRequested (nodes s' ! n)"
proof (induction evs arbitrary: s)
  case Nil
  then show ?case by simp
next
  case (Cons ev evs)
  obtain s1 where s1: "step message ev s = Inr s1" "sessions_ok s1"
    using step_ok [OF Cons.prems(1)] by blast
  have "n < length (nodes s1) \<and> stopRequested (nodes s1 ! n)"
    using step_keeps_stop [OF Cons.prems(1) s1(1) Cons.prems(2,3)] .
  then show ?case
    using Cons.IH [of s1] s1 by (simp add: and_then_def)
qed

lemma stopped_never_notified:
  assumes "sessions_ok s" and "sourceNodeRef s = Some n" and "stopPlayback s = Inr s1"
  shows "\<exists>s2. run message s1 evs = Inr s2 \<and> n \<notin> set (finished s2)"
proof -
  have s1: "s1 = s\<lparr>nodes := (nodes s)[n := (nodes s ! n)\<lparr>onended := None,
                      phase := Finishing, stopRequested := True\<rparr>],
                  sourceNodeRef := None, isPlaying := False\<rparr>"
    using stopPlayback_current [OF assms(1,2)] assms(3) by simp
  have n: "n < length (nodes s)"
    using assms by (simp add: sessions_ok_iff)
  have ok: "sessions_ok s1"
    using stopPlayback_ok [OF assms(1)] assms(3) by auto
  have "n < length (nodes s1)" "stopRequested (nodes s1 ! n)"
    using n by (simp_all add: s1)
  then obtain s2 where s2: "run message s1 evs = Inr s2" "sessions_ok s2"
      "n < length (nodes s2)" "stopRequested (nodes s2 ! n)"
    using run_keeps_stop [OF ok] by blast
  then show ?thesis
    using exclusive_outcomes [OF s2(2,3)] by auto
qed

lemma stopPlayback_twice:
  assumes "sessions_ok s"
  shows "\<exists>s1. stopPlayback s = Inr s1 \<and> stopPlayback s1 = Inr s1 \<and> sessions_ok s1 \<and>
           sourceNodeRef s1 = None \<and> \<not> isPlaying s1 \<and> finished s1 = finished s \<and>
           (\<forall>n. finished (dispatch_ended n s1) = finished s)"
proof -
  obtain s1 where s1: "stopPlayback s = Inr s1" "sessions_ok s1" "sourceNodeRef s1 = None"
    "\<not> isPlaying s1" "finished s1 = finished s"
    using stopPlayback_ok [OF assms] by blast
  then show ?thesis
    using stopPlayback_idle [of s1] idle_no_notification [of s1] by auto
qed

text \<open>
  Claim C7. In every reachable state \<^const>\<open>stopPlayback\<close> returns without an error; with no
  active session it changes nothing; a second call right after the first changes nothing;
  and a call never makes the "finished" notification fire: the log is unchanged by the call,
  unchanged by the dispatch of any \<^verbatim>\<open>ended\<close> event afterwards, and the stopped session is
  never notified, whatever happens later.
\<close>

theorem stopPlayback_idempotent:
  "\<exists>s. run message (initial ctx) evs = Inr s \<and>
     (sourceNodeRef s = None \<longrightarrow> stopPlayback s = Inr s) \<and>
     (\<exists>s1. stopPlayback s = Inr s1 \<and> stopPlayback s1 = Inr s1 \<and>
        sourceNodeRef s1 = None \<and> \<not> isPlaying s1 \<and> finished s1 = finished s \<and>
        (\<forall>n. finished (dispatch_ended n s1) = finished s) \<and>
        (\<forall>n later. sourceNodeRef s = Some n \<longrightarrow>
           (\<exists>s2. run message s1 later = Inr s2 \<and> n \<notin> set (finished s2))))"
proof -
  obtain s where s: "run message (initial ctx) evs = Inr s" "sessions_ok s"
    using reachable_ok by blast
  obtain s1 where s1: "stopPlayback s = Inr s1" "stopPlayback s1 = Inr s1"
      "sourceNodeRef s1 = None" "\<not> isPlaying s1" "finished s1 = finished s"
      "\<forall>n. finished (dispatch_ended n s1) = finished s"
    using stopPlayback_twice [OF s(2)] by blast
  have later: "\<forall>n later. sourceNodeRef s = Some n \<longrightarrow>
      (\<exists>s2. run message s1 later = Inr s2 \<and> n \<notin> set (finished s2))"
    using stopped_never_notified [OF s(2) _ s1(1)] by blast
  have "\<exists>s1. stopPlayback s = Inr s1 \<and> stopPlayback s1 = Inr s1 \<and>
        sourceNodeRef s1 = None \<and> \<not> isPlaying s1 \<and> finished s1 = finished s \<and>
        (\<forall>n. finished (dispatch_ended n s1) = finished s) \<and>
        (\<forall>n later. sourceNodeRef s = Some n \<longrightarrow>
           (\<exists>s2. run message s1 later = Inr s2 \<and> n \<notin> set (finished s2)))"
    using s1 later by (intro exI [of _ s1]) (simp only: simp_thms)
  then show ?thesis
    using s(1) stopPlayback_idle [of s] by (intro exI [of _ s]) simp
qed

text \<open>
  Claim C8. When playback starts (audio context present, not playing, a decoded buffer
  present) with rate \<open>r\<close> and pitch \<open>p\<close> semitones, the new source node's detune is
  \<open>p * 100\<close> cents and its playback rate is \<open>r\<close>, unchanged: the detune does not depend on
  the rate, and the playback rate does not depend on the pitch.
\<close>

theorem handlePlayStop_detune:
  "audioContextRef s = Some c \<and> \<not> isPlaying s \<and> audioBuffer s = Some b \<longrightarrow>
     (\<exists>s' source. handlePlayStop (s\<lparr>rate := r, pitch := p\<rparr>) = Inr s' \<and>
        nodes s' = nodes s @ [source] \<and> sourceNodeRef s' = Some (length (nodes s)) \<and>
        isPlaying s' \<and> phase source = Playing \<and> buffer source = Some b \<and>
        detune source = p * 100 \<and> playbackRate source = r)"
proof (intro impI, elim conjE)
  assume "audioContextRef s = Some c" "\<not> isPlaying s" "audioBuffer s = Some b"
  then show "\<exists>s' source. handlePlayStop (s\<lparr>rate := r, pitch := p\<rparr>) = Inr s' \<and>
        nodes s' = nodes s @ [source] \<and> sourceNodeRef s' = Some (length (nodes s)) \<and>
        isPlaying s' \<and> phase source = Playing \<and> buffer source = Some b \<and>
        detune source = p * 100 \<and> playbackRate source = r"
    using handlePlayStop_play [of "s\<lparr>rate := r, pitch := p\<rparr>" c b] by simp
qed

subsection \<open>Changing rate or pitch\<close>

lemma change_then_play:
  assumes "sessions_ok s"
  shows "\<exists>s1. stopPlayback s = Inr s1 \<and> \<not> isPlaying s1 \<and> sourceNodeRef s1 = None \<and>
           rate s1 = rate s \<and> pitch s1 = pitch s \<and>
           audioBuffer s1 = audioBuffer s \<and> audioContextRef s1 = audioContextRef s \<and>
           finished s1 = finished s \<and>
           filter (\<lambda>source. phase source = Playing) (nodes s1) = [] \<and>
           map playbackRate (nodes s1) = map playbackRate (nodes s) \<and>
           map detune (nodes s1) = map detune (nodes s) \<and>
           (\<forall>n. finished (dispatch_ended n s1) = finished s)"
proof (cases "sourceNodeRef s")
  case None
  then show ?thesis
    using assms idle_no_rendering [OF assms None] idle_no_notification [OF assms None]
    by (auto simp: stopPlayback_idle sessions_ok_iff)
next
  case (Some n)
  let ?s1 = "s\<lparr>nodes := (nodes s)[n := (nodes s ! n)\<lparr>onended := None,
                      phase := Finishing, stopRequested := True\<rparr>],
                  sourceNodeRef := None, isPlaying := False\<rparr>"
  have eq: "stopPlayback s = Inr ?s1"
    by (rule stopPlayback_current [OF assms Some])
  obtain s' where "stopPlayback s = Inr s'" "sessions_ok s'" "sourceNodeRef s' = None"
    using stopPlayback_ok [OF assms] by blast
  then have ok: "sessions_ok ?s1" "sourceNodeRef ?s1 = None"
    using eq by auto
  have "n < length (nodes s)"
    using assms Some by (simp add: sessions_ok_iff)
  then have "map playbackRate (nodes ?s1) = map playbackRate (nodes s)"
    and "map detune (nodes ?s1) = map detune (nodes s)"
    by (simp_all add: map_update list_update_same_conv)
  then show ?thesis
    using eq idle_no_rendering [OF ok] idle_no_notification [OF ok]
    by (intro exI [of _ ?s1]) simp
qed

text \<open>
  Claim C10. In every reachable state, a rate change and a pitch change each first stop the
  active session, if any, and then store the new value: afterwards nothing is playing and no
  node renders, no "finished" notification was or will be caused by the stop, the nodes
  created before keep their playback rate and detune, the other parameter is unchanged, and
  the new value is the one the next play hands to the new node.
\<close>

theorem change_stops_playback:
  "\<exists>s. run message (initial ctx) evs = Inr s \<and>
     (\<exists>s1. handleRateChange v s = Inr s1 \<and>
        \<not> isPlaying s1 \<and> sourceNodeRef s1 = None \<and>
        filter (\<lambda>source. phase source = Playing) (nodes s1) = [] \<and>
        rate s1 = v \<and> pitch s1 = pitch s \<and>
        map playbackRate (nodes s1) = map playbackRate (nodes s) \<and>
        finished s1 = finished s \<and> (\<forall>n. finished (dispatch_ended n s1) = finished s) \<and>
        (\<forall>c b. audioContextRef s = Some c \<and> audioBuffer s = Some b \<longrightarrow>
           (\<exists>s2 source. handlePlayStop s1 = Inr s2 \<and> nodes s2 = nodes s1 @ [source] \<and>
              playbackRate source = v \<and> detune source = pitch s * 100))) \<and>
     (\<exists>s1. handlePitchChange w s = Inr s1 \<and>
        \<not> isPlaying s1 \<and> sourceNodeRef s1 = None \<and>
        filter (\<lambda>source. phase source = Playing) (nodes s1) = [] \<and>
        pitch s1 = w \<and> rate s1 = rate s \<and>
        map detune (nodes s1) = map detune (nodes s) \<and>
        finished s1 = finished s \<and> (\<forall>n. finished (dispatch_ended n s1) = finished s) \<and>
        (\<forall>c b. audioContextRef s = Some c \<and> audioBuffer s = Some b \<longrightarrow>
           (\<exists>s2 source. handlePlayStop s1 = Inr s2 \<and> nodes s2 = nodes s1 @ [source] \<and>
              playbackRate source = rate s \<and> detune source = w * 100)))"
proof -
  obtain s where s: "run message (initial ctx) evs = Inr s" "sessions_ok s"
    using reachable_ok by blast
  obtain s1 where s1: "stopPlayback s = Inr s1" "\<not> isPlaying s1" "sourceNodeRef s1 = None"
      "rate s1 = rate s" "pitch s1 = pitch s" "audioBuffer s1 = audioBuffer s"
      "audioContextRef s1 = audioContextRef s" "finished s1 = finished s"
      "filter (\<lambda>source. phase source = Playing) (nodes s1) = []"
      "map playbackRate (nodes s1) = map playbackRate (nodes s)"
      "map detune (nodes s1) = map detune (nodes s)"
      "\<forall>n. finished (dispatch_ended n s1) = finished s"
    using change_then_play [OF s(2)] by blast
  have d: "dispatch_ended n (s1\<lparr>rate := v\<rparr>) = (dispatch_ended n s1)\<lparr>rate := v\<rparr>"
    "dispatch_ended n (s1\<lparr>pitch := w\<rparr>) = (dispatch_ended n s1)\<lparr>pitch := w\<rparr>" for n
    by (auto simp: dispatch_ended_def Let_def onended_closure_def split: option.splits handler.splits)
  have r: "handleRateChange v s = Inr (s1\<lparr>rate := v\<rparr>)"
    and p: "handlePitchChange w s = Inr (s1\<lparr>pitch := w\<rparr>)"
    using s1(1) by (simp_all add: handleRateChange_def handlePitchChange_def and_then_def)
  have play_r: "\<exists>s2 source. handlePlayStop (s1\<lparr>rate := v\<rparr>) = Inr s2 \<and>
        nodes s2 = nodes (s1\<lparr>rate := v\<rparr>) @ [source] \<and>
        playbackRate source = v \<and> detune source = pitch s * 100"
    if "audioContextRef s = Some c" "audioBuffer s = Some b" for c b
    using that s1 handlePlayStop_play [of "s1\<lparr>rate := v\<rparr>" c b] by simp
  have play_p: "\<exists>s2 source. handlePlayStop (s1\<lparr>pitch := w\<rparr>) = Inr s2 \<and>
        nodes s2 = nodes (s1\<lparr>pitch := w\<rparr>) @ [source] \<and>
        playbackRate source = rate s \<and> detune source = w * 100"
    if "audioContextRef s = Some c" "audioBuffer s = Some b" for c b
    using that s1 handlePlayStop_play [of "s1\<lparr>pitch := w\<rparr>" c b] by simp
  have "\<exists>s1. handleRateChange v s = Inr s1 \<and>
        \<not> isPlaying s1 \<and> sourceNodeRef s1 = None \<and>
        filter (\<lambda>source. phase source = Playing) (nodes s1) = [] \<and>
        rate s1 = v \<and> pitch s1 = pitch s \<and>
        map playbackRate (nodes s1) = map playbackRate (nodes s) \<and>
        finished s1 = finished s \<and> (\<forall>n. finished (dispatch_ended n s1) = finished s) \<and>
        (\<forall>c b. audioContextRef s = Some c \<and> audioBuffer s = Some b \<longrightarrow>
           (\<exists>s2 source. handlePlayStop s1 = Inr s2 \<and> nodes s2 = nodes s1 @ [source] \<and>
              playbackRate source = v \<and> detune source = pitch s * 100))"
    using s1 play_r by (intro exI [of _ "s1\<lparr>rate := v\<rparr>"]) (simp add: r d)
  moreover have "\<exists>s1. handlePitchChange w s = Inr s1 \<and>
        \<not> isPlaying s1 \<and> sourceNodeRef s1 = None \<and>
        filter (\<lambda>source. phase source = Playing) (nodes s1) = [] \<and>
        pitch s1 = w \<and> rate s1 = rate s \<and>
        map detune (nodes s1) = map detune (nodes s) \<and>
        finished s1 = finished s \<and> (\<forall>n. finished (dispatch_ended n s1) = finished s) \<and>
        (\<forall>c b. audioContextRef s = Some c \<and> audioBuffer s = Some b \<longrightarrow>
           (\<exists>s2 source. handlePlayStop s1 = Inr s2 \<and> nodes s2 = nodes s1 @ [source] \<and>
              playbackRate source = rate s \<and> detune source = w * 100))"
    using s1 play_p by (intro exI [of _ "s1\<lparr>pitch := w\<rparr>"]) (simp add: p d)
  ultimately show ?thesis
    using s(1) by blast
qed


subsection \<open>Concrete runs\<close>

lemmas handler_defs =
  initial_def handlePlayStop_def stopPlayback_def handleRateChange_def handlePitchChange_def
  handleGenerateSpeech_begin_def handleGenerateSpeech_settle_def render_end_def
  dispatch_ended_def onended_closure_def createBufferSource_def node_start_def node_stop_def
  and_then_def Let_def

text \<open>
  A buffer is decoded and played: node 0 is the current session and renders. Reaching the end
  of the buffer and dispatching the event leaves the engine idle with the log \<open>[0]\<close>.
\<close>

theorem one_session_one_outcome_witness:
  "\<exists>s. run (\<lambda>_. []) (initial (Some Suspended)) [SpeechSettled (Inr (0::nat)), PlayStop] = Inr s \<and>
     0 < length (nodes s) \<and> sourceNodeRef s = Some 0 \<and> phase (nodes s ! 0) = Playing \<and>
     length (filter (\<lambda>source. phase source = Playing) (nodes s)) \<le> 1 \<and>
     \<not> (stopRequested (nodes s ! 0) \<and> 0 \<in> set (finished s)) \<and>
     \<not> isPlaying (dispatch_ended 0 (render_end 0 s)) \<and>
     sourceNodeRef (dispatch_ended 0 (render_end 0 s)) = None \<and>
     finished (dispatch_ended 0 (render_end 0 s)) = [0]"
proof -
  obtain s where s: "run (\<lambda>_. []) (initial (Some Suspended)) [SpeechSettled (Inr (0::nat)), PlayStop] = Inr s"
    and one: "length (filter (\<lambda>source. phase source = Playing) (nodes s)) \<le> 1"
    and excl: "\<forall>n < length (nodes s). \<not> (stopRequested (nodes s ! n) \<and> n \<in> set (finished s))"
    and compl: "\<forall>n. sourceNodeRef s = Some n \<and> phase (nodes s ! n) = Playing \<longrightarrow>
        \<not> isPlaying (dispatch_ended n (render_end n s)) \<and>
        sourceNodeRef (dispatch_ended n (render_end n s)) = None \<and>
        finished (dispatch_ended n (render_end n s)) = finished s @ [n] \<and>
        count_list (finished (dispatch_ended n (render_end n s))) n = 1"
    using one_session_one_outcome [of "\<lambda>_. []" "Some Suspended" "[SpeechSettled (Inr (0::nat)), PlayStop]"]
    by blast
  have now: "sourceNodeRef s = Some 0" "phase (nodes s ! 0) = Playing" "0 < length (nodes s)"
    "finished s = []"
    using s by (auto simp: handler_defs)
  show ?thesis
    using s one excl [rule_format, of 0] compl [rule_format, of 0] now by auto
qed

text \<open>
  Stopping with no session changes nothing; stopping the playing node 0 twice, then playing
  node 1 to its natural end, never notifies node 0.
\<close>

theorem stopPlayback_idempotent_witness:
  "sourceNodeRef (initial (Some Running) :: nat app) = None \<and>
   stopPlayback (initial (Some Running) :: nat app) = Inr (initial (Some Running)) \<and>
   (\<exists>s. run (\<lambda>_. []) (initial (Some Running)) [SpeechSettled (Inr (0::nat)), PlayStop] = Inr s \<and>
      sourceNodeRef s = Some 0 \<and>
      (\<exists>s1. stopPlayback s = Inr s1 \<and> stopPlayback s1 = Inr s1 \<and>
         sourceNodeRef s1 = None \<and> \<not> isPlaying s1 \<and> finished s1 = [] \<and>
         finished (dispatch_ended 0 s1) = [] \<and>
         (\<exists>s2. run (\<lambda>_. []) s1 [EndedEvent 0, PlayStop, RenderEnd 1, EndedEvent 1] = Inr s2 \<and>
            0 \<notin> set (finished s2))))"
proof -
  have idle: "stopPlayback (initial (Some Running) :: nat app) = Inr (initial (Some Running))"
    using stopPlayback_idempotent [of "\<lambda>_. []" "Some Running" "[] :: nat event list"]
    by (auto simp: initial_def)
  obtain s s1 where s: "run (\<lambda>_. []) (initial (Some Running)) [SpeechSettled (Inr (0::nat)), PlayStop] = Inr s"
    and s1: "stopPlayback s = Inr s1" "stopPlayback s1 = Inr s1"
       "sourceNodeRef s1 = None" "\<not> isPlaying s1" "finished s1 = finished s"
       "\<forall>n. finished (dispatch_ended n s1) = finished s"
       "\<forall>n later. sourceNodeRef s = Some n \<longrightarrow>
           (\<exists>s2. run (\<lambda>_. []) s1 later = Inr s2 \<and> n \<notin> set (finished s2))"
    using stopPlayback_idempotent [of "\<lambda>_. []" "Some Running" "[SpeechSettled (Inr (0::nat)), PlayStop]"]
    by blast
  have now: "sourceNodeRef s = Some 0" "finished s = []"
    using s by (auto simp: handler_defs)
  have later: "\<exists>s2. run (\<lambda>_. []) s1 [EndedEvent 0, PlayStop, RenderEnd 1, EndedEvent 1] = Inr s2 \<and>
      0 \<notin> set (finished s2)"
    using s1(7) now(1) by blast
  have "\<exists>s1. stopPlayback s = Inr s1 \<and> stopPlayback s1 = Inr s1 \<and>
         sourceNodeRef s1 = None \<and> \<not> isPlaying s1 \<and> finished s1 = [] \<and>
         finished (dispatch_ended 0 s1) = [] \<and>
         (\<exists>s2. run (\<lambda>_. []) s1 [EndedEvent 0, PlayStop, RenderEnd 1, EndedEvent 1] = Inr s2 \<and>
            0 \<notin> set (finished s2))"
    using s1(1-6) now later by (intro exI [of _ s1]) simp
  then have "\<exists>s. run (\<lambda>_. []) (initial (Some Running)) [SpeechSettled (Inr (0::nat)), PlayStop] = Inr s \<and>
      sourceNodeRef s = Some 0 \<and>
      (\<exists>s1. stopPlayback s = Inr s1 \<and> stopPlayback s1 = Inr s1 \<and>
         sourceNodeRef s1 = None \<and> \<not> isPlaying s1 \<and> finished s1 = [] \<and>
         finished (dispatch_ended 0 s1) = [] \<and>
         (\<exists>s2. run (\<lambda>_. []) s1 [EndedEvent 0, PlayStop, RenderEnd 1, EndedEvent 1] = Inr s2 \<and>
            0 \<notin> set (finished s2)))"
    using s now(1) by (intro exI [of _ s]) (simp only: simp_thms)
  then show ?thesis
    using idle by (simp add: initial_def)
qed

text \<open>Rate 1.5 and pitch \<open>-12\<close> semitones: detune \<open>-1200\<close> cents, playback rate 1.5.\<close>

theorem handlePlayStop_detune_witness:
  "audioContextRef ((initial (Some Running))\<lparr>audioBuffer := Some (0::nat)\<rparr>) = Some Running \<and>
   \<not> isPlaying ((initial (Some Running))\<lparr>audioBuffer := Some (0::nat)\<rparr>) \<and>
   audioBuffer ((initial (Some Running))\<lparr>audioBuffer := Some (0::nat)\<rparr>) = Some 0 \<and>
   (\<exists>s' source.
      handlePlayStop ((initial (Some Running))\<lparr>audioBuffer := Some (0::nat), rate := 3 / 2,
         pitch := - 12\<rparr>) = Inr s' \<and>
      nodes s' = [source] \<and> detune source = - 1200 \<and> playbackRate source = 3 / 2)"
  using handlePlayStop_detune [where s = "(initial (Some Running))\<lparr>audioBuffer := Some (0::nat)\<rparr>"
      and c = Running and b = 0 and r = "3 / 2" and p = "- 12"]
  by (auto simp: initial_def)

text \<open>
  While node 0 plays at rate 1 and pitch 0: a change of the rate to 2, or of the pitch to 7,
  stops it, and the next play uses rate 2, or detune 700.
\<close>

theorem change_stops_playback_witness:
  "\<exists>s. run (\<lambda>_. []) (initial (Some Running)) [SpeechSettled (Inr (0::nat)), PlayStop] = Inr s \<and>
     isPlaying s \<and> audioContextRef s = Some Running \<and> audioBuffer s = Some 0 \<and>
     (\<exists>s1. handleRateChange 2 s = Inr s1 \<and> \<not> isPlaying s1 \<and> rate s1 = 2 \<and>
        map playbackRate (nodes s1) = [1] \<and> finished (dispatch_ended 0 s1) = [] \<and>
        (\<exists>s2 source. handlePlayStop s1 = Inr s2 \<and> nodes s2 = nodes s1 @ [source] \<and>
           playbackRate source = 2 \<and> detune source = 0)) \<and>
     (\<exists>s1. handlePitchChange 7 s = Inr s1 \<and> \<not> isPlaying s1 \<and> pitch s1 = 7 \<and>
        map detune (nodes s1) = [0] \<and> finished (dispatch_ended 0 s1) = [] \<and>
        (\<exists>s2 source. handlePlayStop s1 = Inr s2 \<and> nodes s2 = nodes s1 @ [source] \<and>
           playbackRate source = 1 \<and> detune source = 700))"
proof -
  obtain s where s: "run (\<lambda>_. []) (initial (Some Running)) [SpeechSettled (Inr (0::nat)), PlayStop] = Inr s"
    and r: "\<exists>s1. handleRateChange 2 s = Inr s1 \<and>
        \<not> isPlaying s1 \<and> sourceNodeRef s1 = None \<and>
        filter (\<lambda>source. phase source = Playing) (nodes s1) = [] \<and>
        rate s1 = 2 \<and> pitch s1 = pitch s \<and>
        map playbackRate (nodes s1) = map playbackRate (nodes s) \<and>
        finished s1 = finished s \<and> (\<forall>n. finished (dispatch_ended n s1) = finished s) \<and>
        (\<forall>c b. audioContextRef s = Some c \<and> audioBuffer s = Some b \<longrightarrow>
           (\<exists>s2 source. handlePlayStop s1 = Inr s2 \<and> nodes s2 = nodes s1 @ [source] \<and>
              playbackRate source = 2 \<and> detune source = pitch s * 100))"
    and p: "\<exists>s1. handlePitchChange 7 s = Inr s1 \<and>
        \<not> isPlaying s1 \<and> sourceNodeRef s1 = None \<and>
        filter (\<lambda>source. phase source = Playing) (nodes s1) = [] \<and>
        pitch s1 = 7 \<and> rate s1 = rate s \<and>
        map detune (nodes s1) = map detune (nodes s) \<and>
        finished s1 = finished s \<and> (\<forall>n. finished (dispatch_ended n s1) = finished s) \<and>
        (\<forall>c b. audioContextRef s = Some c \<and> audioBuffer s = Some b \<longrightarrow>
           (\<exists>s2 source. handlePlayStop s1 = Inr s2 \<and> nodes s2 = nodes s1 @ [source] \<and>
              playbackRate source = rate s \<and> detune source = 7 * 100))"
    using change_stops_playback [of "\<lambda>_. []" "Some Running" "[SpeechSettled (Inr (0::nat)), PlayStop]" 2 7]
    by blast
  have now: "isPlaying s" "audioContextRef s = Some Running" "audioBuffer s = Some 0"
    "finished s = []" "map playbackRate (nodes s) = [1]" "map detune (nodes s) = [0]"
    "pitch s = 0" "rate s = 1"
    using s by (auto simp: handler_defs)
  obtain s1 s2 source where r1: "handleRateChange 2 s = Inr s1" "\<not> isPlaying s1" "rate s1 = 2"
      "map playbackRate (nodes s1) = [1]" "finished (dispatch_ended 0 s1) = []"
      "handlePlayStop s1 = Inr s2" "nodes s2 = nodes s1 @ [source]"
      "playbackRate source = 2" "detune source = 0"
    using r now by auto
  obtain t1 t2 source' where p1: "handlePitchChange 7 s = Inr t1" "\<not> isPlaying t1" "pitch t1 = 7"
      "map detune (nodes t1) = [0]" "finished (dispatch_ended 0 t1) = []"
      "handlePlayStop t1 = Inr t2" "nodes t2 = nodes t1 @ [source']"
      "playbackRate source' = 1" "detune source' = 700"
    using p now by auto
  have r2: "\<exists>s2 source. handlePlayStop s1 = Inr s2 \<and> nodes s2 = nodes s1 @ [source] \<and>
           playbackRate source = 2 \<and> detune source = 0"
    by (rule exI [of _ s2], rule exI [of _ source]) (simp add: r1)
  have p2: "\<exists>s2 source. handlePlayStop t1 = Inr s2 \<and> nodes s2 = nodes t1 @ [source] \<and>
           playbackRate source = 1 \<and> detune source = 700"
    by (rule exI [of _ t2], rule exI [of _ source']) (simp add: p1)
  have "\<exists>s1. handleRateChange 2 s = Inr s1 \<and> \<not> isPlaying s1 \<and> rate s1 = 2 \<and>
        map playbackRate (nodes s1) = [1] \<and> finished (dispatch_ended 0 s1) = [] \<and>
        (\<exists>s2 source. handlePlayStop s1 = Inr s2 \<and> nodes s2 = nodes s1 @ [source] \<and>
           playbackRate source = 2 \<and> detune source = 0)"
    by (rule exI [of _ s1]) (simp add: r1 r2)
  moreover have "\<exists>s1. handlePitchChange 7 s = Inr s1 \<and> \<not> isPlaying s1 \<and> pitch s1 = 7 \<and>
        map detune (nodes s1) = [0] \<and> finished (dispatch_ended 0 s1) = [] \<and>
        (\<exists>s2 source. handlePlayStop s1 = Inr s2 \<and> nodes s2 = nodes s1 @ [source] \<and>
           playbackRate source = 1 \<and> detune source = 700)"
    by (rule exI [of _ t1]) (simp add: p1 p2)
  ultimately show ?thesis
    using s now(1-3) by (intro exI [of _ s]) (simp only: simp_thms)
qed

end
